theory Spec2Isabelle
  imports Main "HOL-Library.Sublist"
begin

section \<open>JavaScript values\<close>

text \<open>
  The payloads that cross the functions of \<^verbatim>\<open>lib/api.js\<close> are parsed JSON documents.
  \<open>JUndefined\<close> is the value of a missing property. Numbers are modelled as integers;
  only their truthiness (\<open>0\<close> is falsy) is ever inspected.
\<close>

datatype json =
    JUndefined
  | JNull
  | JBool bool
  | JNum int
  | JStr string
  | JArr "json list"
  | JObj "(string \<times> json) list"

text \<open>JavaScript truthiness, as tested by \<^verbatim>\<open>if (result.data)\<close> and \<^verbatim>\<open>if (paper.title && ...)\<close>.\<close>

fun truthy :: "json \<Rightarrow> bool" where
  "truthy JUndefined = False"
| "truthy JNull = False"
| "truthy (JBool b) = b"
| "truthy (JNum n) = (n \<noteq> 0)"
| "truthy (JStr s) = (s \<noteq> [])"
| "truthy (JArr xs) = True"
| "truthy (JObj kvs) = True"

text \<open>A thrown \<^verbatim>\<open>Error\<close>, carrying its \<^verbatim>\<open>message\<close>.\<close>

datatype exn = Error string

text \<open>\<^verbatim>\<open>String.prototype.includes\<close>.\<close>

fun str_includes :: "string \<Rightarrow> string \<Rightarrow> bool" where
  "str_includes [] sub = (sub = [])"
| "str_includes (c # cs) sub = (prefix sub (c # cs) \<or> str_includes cs sub)"

text \<open>
  The result object \<^verbatim>\<open>{ data, rateLimited }\<close> that every fetch function returns.
  The three literal shapes the source builds are named after the outcome they stand for.
\<close>

record fetch_result =
  data :: json
  rateLimited :: bool

definition RateLimited :: fetch_result where
  "RateLimited = \<lparr>data = JNull, rateLimited = True\<rparr>"

definition NotFound :: fetch_result where
  "NotFound = \<lparr>data = JNull, rateLimited = False\<rparr>"

definition Found :: "json \<Rightarrow> fetch_result" where
  "Found d = \<lparr>data = d, rateLimited = False\<rparr>"

section \<open>Records of the host store\<close>

text \<open>
  The content of the hidden storage note of an item, as \<^verbatim>\<open>_getStoredData\<close> parses it
  and \<^verbatim>\<open>_setStoredData\<close> writes it. An absent property is \<open>None\<close>.
\<close>

record stored_data =
  sd_citationCount :: "int option"
  sd_influentialCitationCount :: "int option"
  sd_referenceCount :: "int option"
  sd_paperId :: "string option"
  sd_lastUpdated :: string
  sd_arXivId :: "string option"
  sd_fieldsOfStudy :: "string list option"

text \<open>
  A Zotero item: its \<^verbatim>\<open>id\<close>, whether \<^verbatim>\<open>isRegularItem()\<close> holds, its \<^verbatim>\<open>itemType\<close>,
  the field store behind \<^verbatim>\<open>getField\<close>/\<^verbatim>\<open>setField\<close> (an empty field reads as the empty
  string) and the parsed storage note (\<open>None\<close> when there is no such note or its content
  does not parse).
\<close>

record item =
  item_id :: nat
  isRegularItem :: bool
  itemType :: string
  fieldValues :: "string \<Rightarrow> string"
  stored :: "stored_data option"

definition getField :: "item \<Rightarrow> string \<Rightarrow> string" where
  "getField it name = fieldValues it name"

definition setField :: "item \<Rightarrow> string \<Rightarrow> string \<Rightarrow> item" where
  "setField it name v = it\<lparr>fieldValues := (fieldValues it)(name := v)\<rparr>"

section \<open>The retry scheduler of \<^verbatim>\<open>SemanticScholarAPI\<close>\<close>

record retry_entry =
  item :: item
  retryCount :: nat

text \<open>
  The mutable properties of the singleton. \<^verbatim>\<open>maxRetryDelay\<close> and \<^verbatim>\<open>maxRetries\<close> are
  never assigned after the object literal, so they are constants.
\<close>

record api_state =
  retryQueue :: "retry_entry list"
  isProcessingRetryQueue :: bool
  retryDelay :: nat

definition maxRetryDelay :: nat where
  "maxRetryDelay = 60000"

definition maxRetries :: nat where
  "maxRetries = 5"

definition init :: api_state where
  "init = \<lparr>retryQueue = [], isProcessingRetryQueue = False, retryDelay = 2000\<rparr>"

text \<open>
  \<^verbatim>\<open>addToRetryQueue(item, retryCount = 0)\<close>. Every caller in \<^verbatim>\<open>plugin.js\<close> leaves the
  second argument out, so it is \<open>0\<close> there.
\<close>

definition addToRetryQueue :: "api_state \<Rightarrow> item \<Rightarrow> nat \<Rightarrow> api_state" where
  "addToRetryQueue st it rc =
     (if rc \<ge> maxRetries then st
      else if list_ex (\<lambda>q. item_id (item q) = item_id it) (retryQueue st) then st
      else st\<lparr>retryQueue := retryQueue st @ [\<lparr>item = it, retryCount = rc\<rparr>]\<rparr>)"

text \<open>
  The callbacks of \<^verbatim>\<open>processRetryQueue\<close> act on the rest of the world \<open>'w\<close> (the network,
  the item store); \<^verbatim>\<open>Zotero.Promise.delay\<close> is the third capability.
\<close>

type_synonym 'w fetchCallback = "item \<Rightarrow> 'w \<Rightarrow> fetch_result \<times> 'w"
type_synonym 'w applyCallback = "item \<Rightarrow> json \<Rightarrow> 'w \<Rightarrow> 'w"
type_synonym 'w delayFn = "nat \<Rightarrow> 'w \<Rightarrow> 'w"

text \<open>
  One pass through the body of the \<^verbatim>\<open>while (this.retryQueue.length > 0)\<close> loop. The loop
  guard keeps the body away from an empty queue; the first case is never reached from
  \<open>retry_loop\<close>.
\<close>

definition retry_iteration ::
  "'w fetchCallback \<Rightarrow> 'w applyCallback \<Rightarrow> 'w delayFn \<Rightarrow> api_state \<times> 'w \<Rightarrow> api_state \<times> 'w" where
  "retry_iteration fetchCb applyCb delay s =
     (case s of (st, w) \<Rightarrow>
       (case retryQueue st of
          [] \<Rightarrow> (st, w)
        | e # rest \<Rightarrow>
            (let st1 = st\<lparr>retryQueue := rest\<rparr>;
                 (result, w1) = fetchCb (item e) w;
                 (st2, w2) =
                   (if rateLimited result then
                      (let st' = st1\<lparr>retryQueue :=
                                       \<lparr>item = item e, retryCount = retryCount e + 1\<rparr> # retryQueue st1\<rparr>;
                           st'' = st'\<lparr>retryDelay := min (retryDelay st' * 2) maxRetryDelay\<rparr>
                       in (st'', delay (retryDelay st'') w1))
                    else if truthy (data result) then
                      (st1\<lparr>retryDelay := 2000\<rparr>, applyCb (item e) (data result) w1)
                    else (st1, w1))
             in (st2, delay 500 w2))))"

text \<open>
  The loop itself. It need not end (a callback that is rate limited for ever keeps the
  queue non-empty), so it runs on fuel: \<open>None\<close> is a loop that has not left after that
  many passes.
\<close>

fun retry_loop ::
  "nat \<Rightarrow> 'w fetchCallback \<Rightarrow> 'w applyCallback \<Rightarrow> 'w delayFn \<Rightarrow> api_state \<times> 'w
     \<Rightarrow> (api_state \<times> 'w) option" where
  "retry_loop 0 fetchCb applyCb delay s =
     (if retryQueue (fst s) = [] then Some s else None)"
| "retry_loop (Suc n) fetchCb applyCb delay s =
     (if retryQueue (fst s) = [] then Some s
      else retry_loop n fetchCb applyCb delay (retry_iteration fetchCb applyCb delay s))"

definition processRetryQueue ::
  "nat \<Rightarrow> 'w fetchCallback \<Rightarrow> 'w applyCallback \<Rightarrow> 'w delayFn \<Rightarrow> api_state \<times> 'w
     \<Rightarrow> (api_state \<times> 'w) option" where
  "processRetryQueue fuel fetchCb applyCb delay s =
     (case s of (st, w) \<Rightarrow>
       (if isProcessingRetryQueue st \<or> retryQueue st = [] then Some (st, w)
        else
          (let st1 = st\<lparr>isProcessingRetryQueue := True\<rparr>;
               w1 = delay (min (retryDelay st1) maxRetryDelay) w
           in map_option (\<lambda>(st', w'). (st'\<lparr>isProcessingRetryQueue := False\<rparr>, w'))
                (retry_loop fuel fetchCb applyCb delay (st1, w1)))))"

definition hasQueuedItems :: "api_state \<Rightarrow> bool" where
  "hasQueuedItems st = (retryQueue st \<noteq> [])"

definition getQueueLength :: "api_state \<Rightarrow> nat" where
  "getQueueLength st = length (retryQueue st)"

section \<open>Strings\<close>

text \<open>
  A JavaScript string is a sequence of UTF-16 code units. The model covers the code units
  below 256: a \<^typ>\<open>char\<close> stands for the code unit with the same number. On these,
  the regular expression classes and the string methods of the source are as follows.
\<close>

definition code_unit :: "char \<Rightarrow> nat" where
  "code_unit c = of_char c"

text \<open>\<^verbatim>\<open>\d\<close>\<close>

definition is_digit :: "char \<Rightarrow> bool" where
  "is_digit c = (48 \<le> code_unit c \<and> code_unit c \<le> 57)"

text \<open>\<^verbatim>\<open>\w\<close>: the ASCII letters, the digits and the underscore.\<close>

definition is_word :: "char \<Rightarrow> bool" where
  "is_word c =
     ((65 \<le> code_unit c \<and> code_unit c \<le> 90) \<or> (97 \<le> code_unit c \<and> code_unit c \<le> 122)
      \<or> is_digit c \<or> code_unit c = 95)"

text \<open>\<^verbatim>\<open>\s\<close>: tab, line feed, vertical tab, form feed, carriage return, space, no-break space.\<close>

definition is_space :: "char \<Rightarrow> bool" where
  "is_space c = (code_unit c \<in> {9, 10, 11, 12, 13, 32, 160})"

text \<open>\<^verbatim>\<open>toLowerCase\<close>, one code unit at a time: \<open>A\<close> to \<open>Z\<close>, and the Latin-1 capitals.\<close>

definition lower_char :: "char \<Rightarrow> char" where
  "lower_char c =
     (if (65 \<le> code_unit c \<and> code_unit c \<le> 90)
         \<or> (192 \<le> code_unit c \<and> code_unit c \<le> 222 \<and> code_unit c \<noteq> 215)
      then char_of (code_unit c + 32) else c)"

definition toLowerCase :: "string \<Rightarrow> string" where
  "toLowerCase s = map lower_char s"

text \<open>\<^verbatim>\<open>.replace(/\s+/g, ' ')\<close>\<close>

function collapse_ws :: "string \<Rightarrow> string" where
  "collapse_ws [] = []"
| "collapse_ws (c # cs) =
     (if is_space c then CHR '' '' # collapse_ws (dropWhile is_space cs)
      else c # collapse_ws cs)"
  by pat_completeness auto
termination
  by (relation "measure length") (auto simp: length_dropWhile_le le_imp_less_Suc)

definition trim :: "string \<Rightarrow> string" where
  "trim s = rev (dropWhile is_space (rev (dropWhile is_space s)))"

text \<open>\<^verbatim>\<open>Array.prototype.join\<close>\<close>

fun join :: "string \<Rightarrow> string list \<Rightarrow> string" where
  "join sep [] = []"
| "join sep [x] = x"
| "join sep (x # y # ys) = x @ sep @ join sep (y # ys)"

text \<open>\<^verbatim>\<open>[...new Set(xs)]\<close>: the first occurrence of each element, in order.\<close>

fun dedupe :: "'a list \<Rightarrow> 'a list" where
  "dedupe [] = []"
| "dedupe (x # xs) = x # dedupe (filter (\<lambda>y. y \<noteq> x) xs)"

text \<open>
  \<^verbatim>\<open>encodeURIComponent\<close>: the unreserved characters stay, every other code unit is
  written as the percent-escaped bytes of its UTF-8 encoding.
\<close>

definition hex_digit :: "nat \<Rightarrow> char" where
  "hex_digit n = ''0123456789ABCDEF'' ! (n mod 16)"

definition percent_byte :: "nat \<Rightarrow> string" where
  "percent_byte b = [CHR ''%'', hex_digit (b div 16), hex_digit b]"

definition uri_unreserved :: "char \<Rightarrow> bool" where
  "uri_unreserved c =
     ((65 \<le> code_unit c \<and> code_unit c \<le> 90) \<or> (97 \<le> code_unit c \<and> code_unit c \<le> 122)
      \<or> is_digit c \<or> c \<in> set ''-_.!~*()'' \<or> code_unit c = 39)"

definition encode_char :: "char \<Rightarrow> string" where
  "encode_char c =
     (if uri_unreserved c then [c]
      else if code_unit c < 128 then percent_byte (code_unit c)
      else percent_byte (192 + code_unit c div 64) @ percent_byte (128 + code_unit c mod 64))"

definition encodeURIComponent :: "string \<Rightarrow> string" where
  "encodeURIComponent s = concat (map encode_char s)"

section \<open>Property access on parsed JSON\<close>

text \<open>
  \<^verbatim>\<open>x.p\<close>: reading a property of \<^verbatim>\<open>null\<close> or \<^verbatim>\<open>undefined\<close> throws a \<^verbatim>\<open>TypeError\<close>; a
  missing property is \<^verbatim>\<open>undefined\<close>. The property list of an object holds each name once.
  The text of a \<^verbatim>\<open>TypeError\<close> is the engine's; it names the expression, never a number.
\<close>

fun get_prop :: "json \<Rightarrow> string \<Rightarrow> exn + json" where
  "get_prop JUndefined p = Inl (Error (''can't access property '' @ p @ '' of undefined''))"
| "get_prop JNull p = Inl (Error (''can't access property '' @ p @ '' of null''))"
| "get_prop (JObj kvs) p = Inr (case map_of kvs p of Some v \<Rightarrow> v | None \<Rightarrow> JUndefined)"
| "get_prop (JArr xs) p = Inr (if p = ''length'' then JNum (int (length xs)) else JUndefined)"
| "get_prop (JStr s) p = Inr (if p = ''length'' then JNum (int (length s)) else JUndefined)"
| "get_prop (JBool b) p = Inr JUndefined"
| "get_prop (JNum n) p = Inr JUndefined"

text \<open>What \<^verbatim>\<open>for (const x of v)\<close> and \<^verbatim>\<open>...v\<close> run through.\<close>

fun js_iterate :: "json \<Rightarrow> exn + json list" where
  "js_iterate (JArr xs) = Inr xs"
| "js_iterate (JStr s) = Inr (map (\<lambda>c. JStr [c]) s)"
| "js_iterate v = Inl (Error ''value is not iterable'')"

section \<open>Title normalisation (\<^verbatim>\<open>ItemUtils.normalizeTitle\<close>)\<close>

text \<open>
  \<^verbatim>\<open>title.toLowerCase().replace(/[^\w\s]/g, '').replace(/\s+/g, ' ').trim()\<close>. The
  argument is whatever the caller read from the payload: on anything but a string the
  first method call throws.
\<close>

definition normalize_string :: "string \<Rightarrow> string" where
  "normalize_string s =
     trim (collapse_ws (filter (\<lambda>c. is_word c \<or> is_space c) (toLowerCase s)))"

fun normalizeTitle :: "json \<Rightarrow> exn + string" where
  "normalizeTitle (JStr s) = Inr (normalize_string s)"
| "normalizeTitle JNull = Inl (Error ''can't access property toLowerCase, title is null'')"
| "normalizeTitle JUndefined = Inl (Error ''can't access property toLowerCase, title is undefined'')"
| "normalizeTitle v = Inl (Error ''title.toLowerCase is not a function'')"

section \<open>The catalog client (\<^verbatim>\<open>lib/api.js\<close>)\<close>

text \<open>
  What the functions do to the outside world, in order: requests and waits. A request is
  answered by \<^verbatim>\<open>Zotero.HTTP.request\<close> either with a response, of which the source reads
  \<^verbatim>\<open>status\<close> and \<^verbatim>\<open>JSON.parse(responseText)\<close> (\<open>Inl\<close> when parsing throws), or by throwing.
  The answer may depend on everything that happened before.
\<close>

datatype event =
    HttpGet string
  | HttpPost string "string list"
  | Sleep nat

datatype http_result =
    Response nat "exn + json"
  | Throws exn

type_synonym server = "event list \<Rightarrow> event \<Rightarrow> http_result"

definition BASE_URL :: string where
  "BASE_URL = ''https://api.semanticscholar.org/graph/v1''"

text \<open>The \<^verbatim>\<open>catch (error)\<close> block shared by \<^verbatim>\<open>makeRequest\<close> and \<^verbatim>\<open>fetchByTitle\<close>.\<close>

fun on_error :: "exn \<Rightarrow> fetch_result" where
  "on_error (Error msg) =
     (if msg \<noteq> [] \<and> str_includes msg ''429'' then RateLimited else NotFound)"

definition makeRequest :: "server \<Rightarrow> event list \<Rightarrow> string \<Rightarrow> fetch_result \<times> event list" where
  "makeRequest srv log url =
     ((case srv log (HttpGet url) of
         Throws e \<Rightarrow> on_error e
       | Response status body \<Rightarrow>
           (if status = 429 then RateLimited
            else if status \<noteq> 200 then NotFound
            else (case body of Inl e \<Rightarrow> on_error e | Inr d \<Rightarrow> Found d))),
      log @ [HttpGet url])"

definition fetchByDOI :: "server \<Rightarrow> event list \<Rightarrow> string \<Rightarrow> string \<Rightarrow> fetch_result \<times> event list" where
  "fetchByDOI srv log doi fieldsParam =
     makeRequest srv log (BASE_URL @ ''/paper/DOI:'' @ encodeURIComponent doi @ ''?fields='' @ fieldsParam)"

definition fetchByArxivId :: "server \<Rightarrow> event list \<Rightarrow> string \<Rightarrow> string \<Rightarrow> fetch_result \<times> event list" where
  "fetchByArxivId srv log arxivId fieldsParam =
     makeRequest srv log (BASE_URL @ ''/paper/ARXIV:'' @ encodeURIComponent arxivId @ ''?fields='' @ fieldsParam)"

definition fetchByPMID :: "server \<Rightarrow> event list \<Rightarrow> string \<Rightarrow> string \<Rightarrow> fetch_result \<times> event list" where
  "fetchByPMID srv log pmid fieldsParam =
     makeRequest srv log (BASE_URL @ ''/paper/PMID:'' @ encodeURIComponent pmid @ ''?fields='' @ fieldsParam)"

definition fetchByScholarId :: "server \<Rightarrow> event list \<Rightarrow> string \<Rightarrow> string \<Rightarrow> fetch_result \<times> event list" where
  "fetchByScholarId srv log scholarId fieldsParam =
     makeRequest srv log (BASE_URL @ ''/paper/'' @ scholarId @ ''?fields='' @ fieldsParam)"

subsection \<open>\<^verbatim>\<open>fetchByTitle\<close>\<close>

text \<open>The \<^verbatim>\<open>for (const paper of responseData.data)\<close> loop.\<close>

fun match_loop :: "string \<Rightarrow> json list \<Rightarrow> exn + fetch_result" where
  "match_loop normalizedSearchTitle [] = Inr NotFound"
| "match_loop normalizedSearchTitle (paper # rest) =
     (case get_prop paper ''title'' of
        Inl e \<Rightarrow> Inl e
      | Inr t \<Rightarrow>
          (case normalizeTitle t of
             Inl e \<Rightarrow> Inl e
           | Inr normalizedPaperTitle \<Rightarrow>
               (if truthy t \<and> normalizedPaperTitle = normalizedSearchTitle
                then Inr (Found paper)
                else match_loop normalizedSearchTitle rest)))"

text \<open>The \<^verbatim>\<open>try\<close> block from \<^verbatim>\<open>JSON.parse\<close> on: \<open>Inl\<close> is an exception on its way to \<^verbatim>\<open>catch\<close>.\<close>

definition search_body :: "string \<Rightarrow> exn + json \<Rightarrow> exn + fetch_result" where
  "search_body title body =
     (case body of
        Inl e \<Rightarrow> Inl e
      | Inr responseData \<Rightarrow>
          (case get_prop responseData ''data'' of
             Inl e \<Rightarrow> Inl e
           | Inr d \<Rightarrow>
               (if \<not> truthy d then Inr NotFound
                else (case get_prop d ''length'' of
                        Inl e \<Rightarrow> Inl e
                      | Inr len \<Rightarrow>
                          (if len = JNum 0 then Inr NotFound
                           else (case normalizeTitle (JStr title) of
                                   Inl e \<Rightarrow> Inl e
                                 | Inr normalizedSearchTitle \<Rightarrow>
                                     (case js_iterate d of
                                        Inl e \<Rightarrow> Inl e
                                      | Inr papers \<Rightarrow> match_loop normalizedSearchTitle papers)))))))"

definition title_search_url :: "string \<Rightarrow> string \<Rightarrow> string" where
  "title_search_url title fieldsParam =
     BASE_URL @ ''/paper/search?query='' @ encodeURIComponent title @ ''&fields='' @ fieldsParam
       @ '',title&limit=5''"

definition fetchByTitle :: "server \<Rightarrow> event list \<Rightarrow> string \<Rightarrow> string \<Rightarrow> fetch_result \<times> event list" where
  "fetchByTitle srv log title fieldsParam =
     (let url = title_search_url title fieldsParam in
      ((case srv log (HttpGet url) of
          Throws e \<Rightarrow> on_error e
        | Response status body \<Rightarrow>
            (if status = 429 then RateLimited
             else if status \<noteq> 200 then NotFound
             else (case search_body title body of Inl e \<Rightarrow> on_error e | Inr r \<Rightarrow> r))),
       log @ [HttpGet url]))"

subsection \<open>\<^verbatim>\<open>batchFetch\<close>\<close>

text \<open>
  What one pass of the \<^verbatim>\<open>try\<close>/\<^verbatim>\<open>catch\<close> in the loop does with the answer to a chunk:
  the results array afterwards, and whether the loop is left by \<^verbatim>\<open>break\<close> with
  \<^verbatim>\<open>rateLimited = true\<close>. A body that is a string is spread into \<^verbatim>\<open>results\<close> before
  \<^verbatim>\<open>data.filter\<close> throws; the \<^verbatim>\<open>catch\<close> then only logs.
\<close>

fun batch_caught :: "exn \<Rightarrow> bool" where
  "batch_caught (Error msg) = (msg \<noteq> [] \<and> str_includes msg ''429'')"

definition batch_answer :: "http_result \<Rightarrow> json list \<Rightarrow> json list \<times> bool" where
  "batch_answer answer results =
     (case answer of
        Throws e \<Rightarrow> (results, batch_caught e)
      | Response status body \<Rightarrow>
          (if status = 429 then (results, True)
           else if status = 200 then
             (case body of
                Inl e \<Rightarrow> (results, batch_caught e)
              | Inr d \<Rightarrow>
                  (case js_iterate d of
                     Inl e \<Rightarrow> (results, batch_caught e)
                   | Inr xs \<Rightarrow> (results @ xs, False)))
           else (results, False)))"

definition batch_url :: "string \<Rightarrow> string" where
  "batch_url fieldsParam = BASE_URL @ ''/paper/batch?fields='' @ fieldsParam"

text \<open>
  \<^verbatim>\<open>for (let i = 0; i < ids.length; i += batchSize)\<close> with \<^verbatim>\<open>batchSize = 500\<close>; the
  state is \<^verbatim>\<open>results\<close>, \<^verbatim>\<open>rateLimited\<close> and the events so far.
\<close>

function batch_loop ::
  "server \<Rightarrow> string list \<Rightarrow> string \<Rightarrow> nat \<Rightarrow> json list \<times> bool \<times> event list
     \<Rightarrow> json list \<times> bool \<times> event list" where
  "batch_loop srv ids fieldsParam i (results, rl, log) =
     (if i < length ids then
        (let batch = take 500 (drop i ids);
             request = HttpPost (batch_url fieldsParam) batch;
             (results', break) = batch_answer (srv log request) results;
             log1 = log @ [request]
         in if break then (results', True, log1)
            else batch_loop srv ids fieldsParam (i + 500)
                   (results', rl, if i + 500 < length ids then log1 @ [Sleep 200] else log1))
      else (results, rl, log))"
  by pat_completeness auto
termination
  by (relation "measure (\<lambda>(srv, ids, fieldsParam, i, acc). length ids - i)") auto

definition batchFetch ::
  "server \<Rightarrow> event list \<Rightarrow> string list \<Rightarrow> string \<Rightarrow> json list \<times> bool \<times> event list" where
  "batchFetch srv log ids fieldsParam =
     (if ids = [] then ([], False, log)
      else batch_loop srv ids fieldsParam 0 ([], False, log))"

section \<open>Identifier extraction (\<^verbatim>\<open>lib/item-utils.js\<close>)\<close>

text \<open>
  \<^verbatim>\<open>String.prototype.match\<close> with a pattern without the \<^verbatim>\<open>g\<close> flag: the leftmost position
  at which the pattern matches.
\<close>

fun regex_search :: "(string \<Rightarrow> 'a option) \<Rightarrow> string \<Rightarrow> 'a option" where
  "regex_search m [] = m []"
| "regex_search m (c # cs) = (case m (c # cs) of Some r \<Rightarrow> Some r | None \<Rightarrow> regex_search m cs)"

text \<open>A literal under the \<^verbatim>\<open>i\<close> flag, given in lower case: what is left after it.\<close>

definition ascii_lower :: "char \<Rightarrow> char" where
  "ascii_lower c = (if 65 \<le> code_unit c \<and> code_unit c \<le> 90 then char_of (code_unit c + 32) else c)"

definition after_literal :: "string \<Rightarrow> string \<Rightarrow> string option" where
  "after_literal lit s =
     (if length lit \<le> length s \<and> map ascii_lower (take (length lit) s) = lit
      then Some (drop (length lit) s) else None)"

text \<open>\<^verbatim>\<open>(\d+)\<close> and \<^verbatim>\<open>(\d+\.\d+)\<close> at the start of a string: the captured group.\<close>

definition match_digits :: "string \<Rightarrow> string option" where
  "match_digits s = (if takeWhile is_digit s = [] then None else Some (takeWhile is_digit s))"

definition match_number :: "string \<Rightarrow> string option" where
  "match_number s =
     (case match_digits s of
        None \<Rightarrow> None
      | Some whole \<Rightarrow>
          (case dropWhile is_digit s of
             [] \<Rightarrow> None
           | c # r \<Rightarrow>
               (if c = CHR ''.'' then
                  (case match_digits r of
                     None \<Rightarrow> None
                   | Some frac \<Rightarrow> Some (whole @ ''.'' @ frac))
                else None)))"

text \<open>\<^verbatim>\<open>/arXiv:\s*(\d+\.\d+)/i\<close>, \<^verbatim>\<open>/arxiv\.org\/abs\/(\d+\.\d+)/i\<close> and \<^verbatim>\<open>/PMID:\s*(\d+)/i\<close>.\<close>

definition arxiv_extra_match :: "string \<Rightarrow> string option" where
  "arxiv_extra_match extra =
     regex_search (\<lambda>s. case after_literal ''arxiv:'' s of
                          None \<Rightarrow> None
                        | Some r \<Rightarrow> match_number (dropWhile is_space r)) extra"

definition arxiv_url_match :: "string \<Rightarrow> string option" where
  "arxiv_url_match url =
     regex_search (\<lambda>s. case after_literal ''arxiv.org/abs/'' s of
                          None \<Rightarrow> None
                        | Some r \<Rightarrow> match_number r) url"

definition pmid_match :: "string \<Rightarrow> string option" where
  "pmid_match extra =
     regex_search (\<lambda>s. case after_literal ''pmid:'' s of
                          None \<Rightarrow> None
                        | Some r \<Rightarrow> match_digits (dropWhile is_space r)) extra"

definition getArxivId :: "item \<Rightarrow> string option" where
  "getArxivId it =
     (case arxiv_extra_match (getField it ''extra'') of
        Some m \<Rightarrow> Some m
      | None \<Rightarrow> arxiv_url_match (getField it ''url''))"

definition getPMID :: "item \<Rightarrow> string option" where
  "getPMID it = pmid_match (getField it ''extra'')"

definition getDOI :: "item \<Rightarrow> string option" where
  "getDOI it = (if getField it ''DOI'' \<noteq> [] then Some (getField it ''DOI'') else None)"

definition getScholarId :: "item \<Rightarrow> string option" where
  "getScholarId it =
     (if \<not> isRegularItem it then None
      else (case stored it of
              None \<Rightarrow> None
            | Some d \<Rightarrow>
                (case sd_paperId d of
                   None \<Rightarrow> None
                 | Some pid \<Rightarrow> if pid \<noteq> [] then Some pid else None)))"

section \<open>Fetching for one item and for many (\<^verbatim>\<open>plugin.js\<close>)\<close>

text \<open>
  The preferences reach the code through \<^verbatim>\<open>shouldFetchField\<close> and \<^verbatim>\<open>getSearchMode\<close>;
  both are parameters here.
\<close>

definition buildFieldsParam :: "(string \<Rightarrow> bool) \<Rightarrow> string" where
  "buildFieldsParam shouldFetchField =
     join '','' (dedupe
       ([''paperId'', ''citationCount'']
        @ (if shouldFetchField ''influentialCitationCount'' then [''influentialCitationCount''] else [])
        @ (if shouldFetchField ''referenceCount'' then [''referenceCount''] else [])
        @ (if shouldFetchField ''DOI'' then [''externalIds''] else [])
        @ (if shouldFetchField ''arXivId'' then [''externalIds''] else [])
        @ (if shouldFetchField ''abstract'' then [''abstract''] else [])
        @ (if shouldFetchField ''publicationDate'' then [''publicationDate''] else [])
        @ (if shouldFetchField ''venue'' then [''venue'', ''journal''] else [])
        @ (if shouldFetchField ''openAccessPdf'' then [''openAccessPdf''] else [])
        @ (if shouldFetchField ''fieldsOfStudy'' then [''fieldsOfStudy''] else [])))"

text \<open>
  \<^verbatim>\<open>fetchDataForItem\<close>, read from the bottom up: each definition is the function from one
  of its comments (\<^verbatim>\<open>// Fall back to title search\<close>, \<^verbatim>\<open>// Try existing Scholar ID\<close>,
  \<^verbatim>\<open>// Try PMID\<close>, \<^verbatim>\<open>// Try arXiv ID\<close>) to its end. The fetch functions catch what
  they throw, so the outer \<^verbatim>\<open>catch\<close> is never entered.
\<close>

definition title_fallback ::
  "server \<Rightarrow> string \<Rightarrow> string \<Rightarrow> item \<Rightarrow> event list \<Rightarrow> fetch_result \<times> event list" where
  "title_fallback srv searchMode fieldsParam it log =
     (if searchMode = ''title'' then
        (if getField it ''title'' \<noteq> []
         then fetchByTitle srv log (getField it ''title'') fieldsParam
         else (NotFound, log))
      else (NotFound, log))"

definition try_scholarId ::
  "server \<Rightarrow> string \<Rightarrow> string \<Rightarrow> item \<Rightarrow> event list \<Rightarrow> fetch_result \<times> event list" where
  "try_scholarId srv searchMode fieldsParam it log =
     (case getScholarId it of
        Some scholarId \<Rightarrow>
          (let (result, log1) = fetchByScholarId srv log scholarId fieldsParam
           in if rateLimited result then (result, log1)
              else if truthy (data result) then (result, log1)
              else title_fallback srv searchMode fieldsParam it log1)
      | None \<Rightarrow> title_fallback srv searchMode fieldsParam it log)"

definition try_pmid ::
  "server \<Rightarrow> string \<Rightarrow> string \<Rightarrow> item \<Rightarrow> event list \<Rightarrow> fetch_result \<times> event list" where
  "try_pmid srv searchMode fieldsParam it log =
     (case getPMID it of
        Some pmid \<Rightarrow>
          (let (result, log1) = fetchByPMID srv log pmid fieldsParam
           in if rateLimited result then (result, log1)
              else if truthy (data result) then (result, log1)
              else try_scholarId srv searchMode fieldsParam it log1)
      | None \<Rightarrow> try_scholarId srv searchMode fieldsParam it log)"

definition try_arxiv ::
  "server \<Rightarrow> string \<Rightarrow> string \<Rightarrow> item \<Rightarrow> event list \<Rightarrow> fetch_result \<times> event list" where
  "try_arxiv srv searchMode fieldsParam it log =
     (case getArxivId it of
        Some arxivId \<Rightarrow>
          (let (result, log1) = fetchByArxivId srv log arxivId fieldsParam
           in if rateLimited result then (result, log1)
              else if truthy (data result) then (result, log1)
              else try_pmid srv searchMode fieldsParam it log1)
      | None \<Rightarrow> try_pmid srv searchMode fieldsParam it log)"

definition fetchDataForItem ::
  "server \<Rightarrow> (string \<Rightarrow> bool) \<Rightarrow> string \<Rightarrow> item \<Rightarrow> event list \<Rightarrow> fetch_result \<times> event list" where
  "fetchDataForItem srv shouldFetchField searchMode it log =
     (if \<not> isRegularItem it then (NotFound, log)
      else
        (let fieldsParam = buildFieldsParam shouldFetchField in
         (case getDOI it of
            Some doi \<Rightarrow>
              (let (result, log1) = fetchByDOI srv log doi fieldsParam
               in if rateLimited result then (result, log1)
                  else if truthy (data result) then (result, log1)
                  else try_arxiv srv searchMode fieldsParam it log1)
          | None \<Rightarrow> try_arxiv srv searchMode fieldsParam it log)))"

text \<open>
  \<^verbatim>\<open>batchFetchByScholarIds\<close>: the \<^verbatim>\<open>Map\<close> from item id to payload it builds, the flag and
  the events.
\<close>

definition itemsWithIds :: "item list \<Rightarrow> (item \<times> string) list" where
  "itemsWithIds items =
     concat (map (\<lambda>it. case getScholarId it of Some scholarId \<Rightarrow> [(it, scholarId)] | None \<Rightarrow> []) items)"

definition map_back :: "(item \<times> string) list \<Rightarrow> json list \<Rightarrow> (nat \<rightharpoonup> json)" where
  "map_back withIds apiResults =
     foldl (\<lambda>results ((it, scholarId), paperData).
              if truthy paperData then results(item_id it \<mapsto> paperData) else results)
       Map.empty (zip withIds apiResults)"

definition batchFetchByScholarIds ::
  "server \<Rightarrow> (string \<Rightarrow> bool) \<Rightarrow> item list \<Rightarrow> event list
     \<Rightarrow> (nat \<rightharpoonup> json) \<times> bool \<times> event list" where
  "batchFetchByScholarIds srv shouldFetchField items log =
     (if itemsWithIds items = [] then (Map.empty, False, log)
      else
        (let fieldsParam = buildFieldsParam shouldFetchField;
             ids = map snd (itemsWithIds items);
             (apiResults, rl, log1) = batchFetch srv log ids fieldsParam
         in (map_back (itemsWithIds items) apiResults, rl, log1)))"

section \<open>Merging a payload into an item (\<^verbatim>\<open>ItemUtils.applyDataToItem\<close>)\<close>

text \<open>
  The catalog payload as \<^verbatim>\<open>applyDataToItem\<close> reads it, one field per property path
  (\<^verbatim>\<open>data.externalIds?.DOI\<close>, \<^verbatim>\<open>data.journal?.name\<close>, \<^verbatim>\<open>data.openAccessPdf?.url\<close>, ...).
  \<open>None\<close> is a path that ends in \<^verbatim>\<open>undefined\<close> or \<^verbatim>\<open>null\<close>; \<open>Some []\<close> is the empty
  string, which is falsy as well.
\<close>

record paper =
  citationCount :: "int option"
  influentialCitationCount :: "int option"
  referenceCount :: "int option"
  paperId :: "string option"
  externalIds_DOI :: "string option"
  externalIds_ArXiv :: "string option"
  abstract :: "string option"
  publicationDate :: "string option"
  journal_name :: "string option"
  venue :: "string option"
  openAccessPdf_url :: "string option"
  fieldsOfStudy :: "string list option"

fun truthy_str :: "string option \<Rightarrow> bool" where
  "truthy_str None = False"
| "truthy_str (Some s) = (s \<noteq> [])"

text \<open>\<^verbatim>\<open>a || b\<close> on two such values.\<close>

definition js_or :: "string option \<Rightarrow> string option \<Rightarrow> string option" where
  "js_or a b = (if truthy_str a then a else b)"

text \<open>
  \<^verbatim>\<open>_setStoredData\<close> replaces the content of the storage note (creating the note when
  there is none).
\<close>

definition setStoredData :: "item \<Rightarrow> stored_data \<Rightarrow> item" where
  "setStoredData it sd = (if \<not> isRegularItem it then it else it\<lparr>stored := Some sd\<rparr>)"

text \<open>
  The block that each of the five field updates ends in:
  \<^verbatim>\<open>if (overwriteExisting || !current) item.setField(name, value)\<close>.
\<close>

definition write_field :: "bool \<Rightarrow> string \<Rightarrow> string \<Rightarrow> item \<Rightarrow> item" where
  "write_field overwriteExisting name v it =
     (if overwriteExisting \<or> getField it name = [] then setField it name v else it)"

definition venueField :: "item \<Rightarrow> string" where
  "venueField it =
     (if itemType it = ''conferencePaper'' then ''proceedingsTitle''
      else if itemType it = ''bookSection'' then ''bookTitle''
      else ''publicationTitle'')"

definition build_storedData :: "paper \<Rightarrow> (string \<Rightarrow> bool) \<Rightarrow> string \<Rightarrow> stored_data" where
  "build_storedData d shouldFetchField today =
     \<lparr>sd_citationCount = citationCount d,
      sd_influentialCitationCount =
        (if shouldFetchField ''influentialCitationCount'' then influentialCitationCount d else None),
      sd_referenceCount =
        (if shouldFetchField ''referenceCount'' then referenceCount d else None),
      sd_paperId = (if truthy_str (paperId d) then paperId d else None),
      sd_lastUpdated = today,
      sd_arXivId =
        (if shouldFetchField ''arXivId'' \<and> truthy_str (externalIds_ArXiv d)
         then externalIds_ArXiv d else None),
      sd_fieldsOfStudy =
        (if shouldFetchField ''fieldsOfStudy'' \<and> fieldsOfStudy d \<noteq> None \<and> fieldsOfStudy d \<noteq> Some []
         then fieldsOfStudy d else None)\<rparr>"

text \<open>The five field updates, one definition for each \<^verbatim>\<open>if (shouldFetchField(...))\<close> block.\<close>

definition apply_DOI :: "paper \<Rightarrow> (string \<Rightarrow> bool) \<Rightarrow> bool \<Rightarrow> item \<Rightarrow> item" where
  "apply_DOI d shouldFetchField overwriteExisting it =
     (if shouldFetchField ''DOI'' \<and> truthy_str (externalIds_DOI d)
      then write_field overwriteExisting ''DOI'' (the (externalIds_DOI d)) it
      else it)"

definition apply_abstract :: "paper \<Rightarrow> (string \<Rightarrow> bool) \<Rightarrow> bool \<Rightarrow> item \<Rightarrow> item" where
  "apply_abstract d shouldFetchField overwriteExisting it =
     (if shouldFetchField ''abstract'' \<and> truthy_str (abstract d)
      then write_field overwriteExisting ''abstractNote'' (the (abstract d)) it
      else it)"

definition apply_publicationDate :: "paper \<Rightarrow> (string \<Rightarrow> bool) \<Rightarrow> bool \<Rightarrow> item \<Rightarrow> item" where
  "apply_publicationDate d shouldFetchField overwriteExisting it =
     (if shouldFetchField ''publicationDate'' \<and> truthy_str (publicationDate d)
      then write_field overwriteExisting ''date'' (the (publicationDate d)) it
      else it)"

definition apply_venue :: "paper \<Rightarrow> (string \<Rightarrow> bool) \<Rightarrow> bool \<Rightarrow> item \<Rightarrow> item" where
  "apply_venue d shouldFetchField overwriteExisting it =
     (if shouldFetchField ''venue'' then
        (let v = js_or (journal_name d) (venue d)
         in if truthy_str v then write_field overwriteExisting (venueField it) (the v) it
            else it)
      else it)"

definition apply_openAccessPdf :: "paper \<Rightarrow> (string \<Rightarrow> bool) \<Rightarrow> bool \<Rightarrow> item \<Rightarrow> item" where
  "apply_openAccessPdf d shouldFetchField overwriteExisting it =
     (if shouldFetchField ''openAccessPdf'' \<and> truthy_str (openAccessPdf_url d)
      then write_field overwriteExisting ''url'' (the (openAccessPdf_url d)) it
      else it)"

text \<open>
  \<open>today\<close> is \<^verbatim>\<open>new Date().toLocaleDateString()\<close>; \<open>None\<close> as payload is a falsy
  \<^verbatim>\<open>data\<close>. The log callback and \<^verbatim>\<open>saveTx\<close> leave the item as it is.
\<close>

definition applyDataToItem ::
  "item \<Rightarrow> paper option \<Rightarrow> (string \<Rightarrow> bool) \<Rightarrow> bool \<Rightarrow> string \<Rightarrow> item" where
  "applyDataToItem it payload shouldFetchField overwriteExisting today =
     (case payload of
        None \<Rightarrow> it
      | Some d \<Rightarrow>
          (if \<not> isRegularItem it then it
           else
             apply_openAccessPdf d shouldFetchField overwriteExisting
               (apply_venue d shouldFetchField overwriteExisting
                 (apply_publicationDate d shouldFetchField overwriteExisting
                   (apply_abstract d shouldFetchField overwriteExisting
                     (apply_DOI d shouldFetchField overwriteExisting
                       (setStoredData it (build_storedData d shouldFetchField today))))))))"

subsection \<open>The exported fields, by name\<close>

text \<open>
  The five exported fields the merge policy speaks of, each with its preference flag, the
  item field it is written to and the value the catalog supplies for it.
\<close>

datatype exported = ExpDOI | ExpAbstract | ExpDate | ExpVenue | ExpOpenAccessUrl

fun fetch_flag :: "exported \<Rightarrow> string" where
  "fetch_flag ExpDOI = ''DOI''"
| "fetch_flag ExpAbstract = ''abstract''"
| "fetch_flag ExpDate = ''publicationDate''"
| "fetch_flag ExpVenue = ''venue''"
| "fetch_flag ExpOpenAccessUrl = ''openAccessPdf''"

fun target_field :: "item \<Rightarrow> exported \<Rightarrow> string" where
  "target_field it ExpDOI = ''DOI''"
| "target_field it ExpAbstract = ''abstractNote''"
| "target_field it ExpDate = ''date''"
| "target_field it ExpVenue = venueField it"
| "target_field it ExpOpenAccessUrl = ''url''"

fun catalog_value :: "paper \<Rightarrow> exported \<Rightarrow> string option" where
  "catalog_value d ExpDOI = externalIds_DOI d"
| "catalog_value d ExpAbstract = abstract d"
| "catalog_value d ExpDate = publicationDate d"
| "catalog_value d ExpVenue = js_or (journal_name d) (venue d)"
| "catalog_value d ExpOpenAccessUrl = openAccessPdf_url d"

text \<open>
  What the merge policy makes of one exported field: the catalog value when the flag is
  set, the catalog supplies a value, and overwriting is forced or the field is empty;
  the old value otherwise.
\<close>

definition merged_value ::
  "item \<Rightarrow> paper \<Rightarrow> (string \<Rightarrow> bool) \<Rightarrow> bool \<Rightarrow> exported \<Rightarrow> string" where
  "merged_value it d shouldFetchField ow k =
     (if shouldFetchField (fetch_flag k) \<and> truthy_str (catalog_value d k)
         \<and> (ow \<or> getField it (target_field it k) = [])
      then the (catalog_value d k) else getField it (target_field it k))"

section \<open>Sequences of scheduler calls\<close>

text \<open>
  The scheduler is driven by calls of \<^verbatim>\<open>addToRetryQueue\<close> and by passes of the drain loop.
  \<open>run_ops\<close> replays such a sequence; a pass is taken only when the loop guard holds.
  \<open>queued_ids\<close> lists the \<^verbatim>\<open>item.id\<close> of the queued entries, the key that
  \<^verbatim>\<open>addToRetryQueue\<close> compares.
\<close>

datatype sched_op = Enqueue item nat | DrainPass

fun run_ops ::
  "'w fetchCallback \<Rightarrow> 'w applyCallback \<Rightarrow> 'w delayFn \<Rightarrow> sched_op list \<Rightarrow> api_state \<times> 'w
     \<Rightarrow> api_state \<times> 'w" where
  "run_ops fetchCb applyCb delay [] s = s"
| "run_ops fetchCb applyCb delay (Enqueue it rc # ops) s =
     run_ops fetchCb applyCb delay ops (addToRetryQueue (fst s) it rc, snd s)"
| "run_ops fetchCb applyCb delay (DrainPass # ops) s =
     run_ops fetchCb applyCb delay ops
       (if retryQueue (fst s) = [] then s else retry_iteration fetchCb applyCb delay s)"

definition queued_ids :: "api_state \<Rightarrow> nat list" where
  "queued_ids st = map (\<lambda>q. item_id (item q)) (retryQueue st)"

definition delay_in_bounds :: "api_state \<Rightarrow> bool" where
  "delay_in_bounds st = (2000 \<le> retryDelay st \<and> retryDelay st \<le> maxRetryDelay)"

text \<open>
  \<^verbatim>\<open>processRetryQueue\<close> is an \<^verbatim>\<open>async\<close> function: between
  \<^verbatim>\<open>this.retryQueue.shift()\<close> and the test of \<^verbatim>\<open>result.rateLimited\<close> it awaits
  \<^verbatim>\<open>fetchCallback(item)\<close>, and while it waits the rest of the plugin runs, among it
  the callers of \<^verbatim>\<open>addToRetryQueue\<close> (the Refresh button, the notifier for new items,
  the bulk update). \<open>retry_shift\<close> is the pass up to that \<^verbatim>\<open>await\<close>, \<open>retry_resume\<close>
  the pass from the moment the awaited result arrives, and \<open>run_steps\<close> replays a sequence
  of enqueue calls, starts of a pass and resumptions of the suspended pass with the result
  of its fetch. The entry taken off the queue is held by the suspended pass in the
  meantime; only one pass runs at a time (\<^verbatim>\<open>isProcessingRetryQueue\<close>), so a pass starts
  only when none is suspended and the queue is not empty.
\<close>

definition retry_shift :: "api_state \<Rightarrow> (retry_entry \<times> api_state) option" where
  "retry_shift st =
     (case retryQueue st of
        [] \<Rightarrow> None
      | e # rest \<Rightarrow> Some (e, st\<lparr>retryQueue := rest\<rparr>))"

definition retry_resume ::
  "'w applyCallback \<Rightarrow> 'w delayFn \<Rightarrow> retry_entry \<Rightarrow> fetch_result \<Rightarrow> api_state \<times> 'w
     \<Rightarrow> api_state \<times> 'w" where
  "retry_resume applyCb delay e result s =
     (case s of (st1, w1) \<Rightarrow>
        (let (st2, w2) =
               (if rateLimited result then
                  (let st' = st1\<lparr>retryQueue :=
                                   \<lparr>item = item e, retryCount = retryCount e + 1\<rparr> # retryQueue st1\<rparr>;
                       st'' = st'\<lparr>retryDelay := min (retryDelay st' * 2) maxRetryDelay\<rparr>
                   in (st'', delay (retryDelay st'') w1))
                else if truthy (data result) then
                  (st1\<lparr>retryDelay := 2000\<rparr>, applyCb (item e) (data result) w1)
                else (st1, w1))
         in (st2, delay 500 w2)))"

datatype pass_step = Enqueued item nat | Shift | Resume fetch_result

fun run_steps ::
  "'w applyCallback \<Rightarrow> 'w delayFn \<Rightarrow> pass_step list \<Rightarrow> api_state \<times> retry_entry option \<times> 'w
     \<Rightarrow> api_state \<times> retry_entry option \<times> 'w" where
  "run_steps applyCb delay [] s = s"
| "run_steps applyCb delay (Enqueued it rc # steps) (st, inflight, w) =
     run_steps applyCb delay steps (addToRetryQueue st it rc, inflight, w)"
| "run_steps applyCb delay (Shift # steps) (st, inflight, w) =
     run_steps applyCb delay steps
       (case inflight of
          Some e \<Rightarrow> (st, inflight, w)
        | None \<Rightarrow>
            (case retry_shift st of
               None \<Rightarrow> (st, inflight, w)
             | Some (e, st1) \<Rightarrow> (st1, Some e, w)))"
| "run_steps applyCb delay (Resume result # steps) (st, inflight, w) =
     run_steps applyCb delay steps
       (case inflight of
          None \<Rightarrow> (st, inflight, w)
        | Some e \<Rightarrow> (let (st', w') = retry_resume applyCb delay e result (st, w) in (st', None, w')))"

section \<open>The client's lookups, by identifier kind\<close>

text \<open>
  The four single-identifier lookups under one name, with the URL each one requests.
\<close>

datatype id_kind = KindDOI | KindArxiv | KindPMID | KindScholarId

fun lookup_url :: "id_kind \<Rightarrow> string \<Rightarrow> string \<Rightarrow> string" where
  "lookup_url KindDOI v fieldsParam =
     BASE_URL @ ''/paper/DOI:'' @ encodeURIComponent v @ ''?fields='' @ fieldsParam"
| "lookup_url KindArxiv v fieldsParam =
     BASE_URL @ ''/paper/ARXIV:'' @ encodeURIComponent v @ ''?fields='' @ fieldsParam"
| "lookup_url KindPMID v fieldsParam =
     BASE_URL @ ''/paper/PMID:'' @ encodeURIComponent v @ ''?fields='' @ fieldsParam"
| "lookup_url KindScholarId v fieldsParam =
     BASE_URL @ ''/paper/'' @ v @ ''?fields='' @ fieldsParam"

fun lookupByIdentifier ::
  "server \<Rightarrow> event list \<Rightarrow> id_kind \<Rightarrow> string \<Rightarrow> string \<Rightarrow> fetch_result \<times> event list" where
  "lookupByIdentifier srv log KindDOI v fieldsParam = fetchByDOI srv log v fieldsParam"
| "lookupByIdentifier srv log KindArxiv v fieldsParam = fetchByArxivId srv log v fieldsParam"
| "lookupByIdentifier srv log KindPMID v fieldsParam = fetchByPMID srv log v fieldsParam"
| "lookupByIdentifier srv log KindScholarId v fieldsParam = fetchByScholarId srv log v fieldsParam"

section \<open>Vocabulary for the title search\<close>

text \<open>
  A candidate of a search response has a string title, and it matches the query when that
  title is non-empty and normalises to the same string as the query.
\<close>

definition has_string_title :: "json \<Rightarrow> bool" where
  "has_string_title paper = (case get_prop paper ''title'' of Inr (JStr s) \<Rightarrow> True | _ \<Rightarrow> False)"

definition title_matches :: "string \<Rightarrow> json \<Rightarrow> bool" where
  "title_matches title paper =
     (case get_prop paper ''title'' of
        Inr (JStr s) \<Rightarrow> s \<noteq> [] \<and> normalize_string s = normalize_string title
      | _ \<Rightarrow> False)"



section \<open>Batch lookup, chunk by chunk\<close>

text \<open>
  The consecutive chunks of at most \<open>n\<close> elements of a list; the batch lookup as one
  request per chunk, leaving at the first rate-limited answer and waiting 200 ms before
  each further chunk; and the events of a run of requests with these waits between them.
\<close>

function chunks :: "nat \<Rightarrow> 'a list \<Rightarrow> 'a list list" where
  "chunks n xs = (if n = 0 \<or> xs = [] then [] else take n xs # chunks n (drop n xs))"
  by pat_completeness auto
termination
  by (relation "measure (\<lambda>(n, xs). length xs)") auto

fun batch_chunks ::
  "server \<Rightarrow> string \<Rightarrow> string list list \<Rightarrow> json list \<times> bool \<times> event list
     \<Rightarrow> json list \<times> bool \<times> event list" where
  "batch_chunks srv fieldsParam [] acc = acc"
| "batch_chunks srv fieldsParam (c # cs) (results, rl, log) =
     (let request = HttpPost (batch_url fieldsParam) c;
          (results', break) = batch_answer (srv log request) results;
          log1 = log @ [request]
      in if break then (results', True, log1)
         else batch_chunks srv fieldsParam cs
                (results', rl, if cs \<noteq> [] then log1 @ [Sleep 200] else log1))"

fun paced :: "event list \<Rightarrow> event list" where
  "paced [] = []"
| "paced [r] = [r]"
| "paced (r # r' # rs) = r # Sleep 200 # paced (r' # rs)"

text \<open>
  What the catalog has seen when the chunk at index \<open>j\<close> is requested, provided none of the
  chunks before it was rate limited: the requests for these chunks, a wait after each.
  The catalog's answer to the chunk at index \<open>j\<close> is its answer after that history. An
  answer counts as rate limited when its status is 429, or when the request throws an
  error whose message contains \<^verbatim>\<open>429\<close>.
\<close>

definition chunk_history :: "event list \<Rightarrow> string \<Rightarrow> string list list \<Rightarrow> nat \<Rightarrow> event list" where
  "chunk_history log fieldsParam cs j =
     log @ paced (map (HttpPost (batch_url fieldsParam)) (take j cs))
       @ (if 0 < j then [Sleep 200] else [])"

definition chunk_answer ::
  "server \<Rightarrow> event list \<Rightarrow> string \<Rightarrow> string list list \<Rightarrow> nat \<Rightarrow> http_result" where
  "chunk_answer srv log fieldsParam cs j =
     srv (chunk_history log fieldsParam cs j) (HttpPost (batch_url fieldsParam) (cs ! j))"

fun chunk_rate_limited :: "http_result \<Rightarrow> bool" where
  "chunk_rate_limited (Response status body) = (status = 429)"
| "chunk_rate_limited (Throws (Error msg)) = str_includes msg ''429''"


section \<open>Identifier candidates in priority order\<close>

text \<open>
  A result is decisive when the caller returns it at once: it is rate limited or carries
  data. The lookups an item gives rise to, in the order DOI, arXiv id, PMID, catalog id;
  the lookups tried in order up to the first decisive result; the result of the j-th
  lookup when it is reached; and continuing with \<open>k\<close> when no lookup was decisive.
\<close>

definition decisive :: "fetch_result \<Rightarrow> bool" where
  "decisive result = (rateLimited result \<or> truthy (data result))"

definition identifier_urls :: "item \<Rightarrow> string \<Rightarrow> string list" where
  "identifier_urls it fieldsParam =
     (case getDOI it of Some doi \<Rightarrow> [lookup_url KindDOI doi fieldsParam] | None \<Rightarrow> [])
     @ (case getArxivId it of Some arxivId \<Rightarrow> [lookup_url KindArxiv arxivId fieldsParam] | None \<Rightarrow> [])
     @ (case getPMID it of Some pmid \<Rightarrow> [lookup_url KindPMID pmid fieldsParam] | None \<Rightarrow> [])
     @ (case getScholarId it of Some scholarId \<Rightarrow> [lookup_url KindScholarId scholarId fieldsParam]
        | None \<Rightarrow> [])"

fun first_decisive :: "server \<Rightarrow> string list \<Rightarrow> event list \<Rightarrow> fetch_result option \<times> event list" where
  "first_decisive srv [] log = (None, log)"
| "first_decisive srv (url # urls) log =
     (let (result, log1) = makeRequest srv log url
      in if decisive result then (Some result, log1) else first_decisive srv urls log1)"

definition nth_result :: "server \<Rightarrow> event list \<Rightarrow> string list \<Rightarrow> nat \<Rightarrow> fetch_result" where
  "nth_result srv log urls j = fst (makeRequest srv (log @ map HttpGet (take j urls)) (urls ! j))"

definition or_else ::
  "fetch_result option \<times> event list \<Rightarrow> (event list \<Rightarrow> fetch_result \<times> event list)
     \<Rightarrow> fetch_result \<times> event list" where
  "or_else r k = (case r of (Some result, log) \<Rightarrow> (result, log) | (None, log) \<Rightarrow> k log)"

section \<open>Vocabulary for the identifier patterns\<close>

text \<open>
  A non-empty run of digits; a remainder that does not go on with a digit, so that a run
  of digits before it is a whole number; a string that spells a lower-case literal when
  letter case is ignored; and a string none of whose characters is the given lower-case
  letter in either case, so that no occurrence of a literal with that first letter starts
  in it.
\<close>

definition digits :: "string \<Rightarrow> bool" where
  "digits ds = (ds \<noteq> [] \<and> list_all is_digit ds)"

definition no_digit_next :: "string \<Rightarrow> bool" where
  "no_digit_next rest = (case rest of [] \<Rightarrow> True | c # r \<Rightarrow> \<not> is_digit c)"

definition spells :: "string \<Rightarrow> string \<Rightarrow> bool" where
  "spells lit s = (map ascii_lower s = lit)"

definition never_starts :: "char \<Rightarrow> string \<Rightarrow> bool" where
  "never_starts l s = list_all (\<lambda>c. ascii_lower c \<noteq> l) s"

section \<open>Concrete inputs\<close>

text \<open>
  An item without identifiers; a fetch callback that answers from a list, and callbacks
  that do nothing.
\<close>

definition sample_item :: "nat \<Rightarrow> item" where
  "sample_item n = \<lparr>item_id = n, isRegularItem = True, itemType = ''journalArticle'',
     fieldValues = (\<lambda>_. []), stored = None\<rparr>"

definition scripted_fetch :: "fetch_result list fetchCallback" where
  "scripted_fetch it w = (case w of [] \<Rightarrow> (NotFound, []) | r # rs \<Rightarrow> (r, rs))"

definition no_apply :: "'w applyCallback" where
  "no_apply it d w = w"

definition no_delay :: "'w delayFn" where
  "no_delay ms w = w"

text \<open>An item of the library and a catalog payload for it.\<close>

definition library_item :: item where
  "library_item =
     \<lparr>item_id = 11, isRegularItem = True, itemType = ''conferencePaper'',
      fieldValues = (\<lambda>name. if name = ''abstractNote'' then ''old abstract''
                             else if name = ''title'' then ''Deep Learning, 2016!'' else []),
      stored = None\<rparr>"

definition catalog_paper :: paper where
  "catalog_paper =
     \<lparr>citationCount = Some 42, influentialCitationCount = Some 7, referenceCount = None,
      paperId = Some ''abc123'', externalIds_DOI = Some ''10.1000/xyz'', externalIds_ArXiv = None,
      abstract = Some ''new abstract'', publicationDate = Some ''2016-11-18'',
      journal_name = None, venue = Some ''NeurIPS'', openAccessPdf_url = None,
      fieldsOfStudy = None\<rparr>"

text \<open>
  A catalog that answers the requests it receives from a fixed list, in order, and with
  404 once the list is used up.
\<close>

fun is_request :: "event \<Rightarrow> bool" where
  "is_request (Sleep ms) = False"
| "is_request e = True"

definition scripted_server :: "http_result list \<Rightarrow> server" where
  "scripted_server answers log request =
     (let n = length (filter is_request log)
      in if n < length answers then answers ! n else Response 404 (Inr JNull))"

definition doi_lookup_url :: string where
  "doi_lookup_url =
     ''https://api.semanticscholar.org/graph/v1/paper/DOI:10.1000%2Fxyz?fields=paperId,citationCount''"

text \<open>A candidate paper with the given \<^verbatim>\<open>title\<close> property, and a search response.\<close>

definition candidate :: "json \<Rightarrow> json" where
  "candidate t = JObj [(''paperId'', JStr ''abc123''), (''title'', t)]"

definition search_response :: "json list \<Rightarrow> http_result" where
  "search_response papers = Response 200 (Inr (JObj [(''total'', JNum (int (length papers))), (''data'', JArr papers)]))"

text \<open>
  Catalog ids \<open>a\<close>, \<open>aa\<close>, \<open>aaa\<close>, ...; a catalog that answers every batch request with
  one paper per id; the same catalog with an internal server error as its first answer;
  items that carry these ids in their storage note.
\<close>

definition sid :: "nat \<Rightarrow> string" where
  "sid n = replicate (Suc n) CHR ''a''"

definition paper_for :: "string \<Rightarrow> json" where
  "paper_for s = JObj [(''paperId'', JStr s), (''citationCount'', JNum 1)]"

definition honest_catalog :: server where
  "honest_catalog log request =
     (case request of
        HttpPost url ids \<Rightarrow> Response 200 (Inr (JArr (map paper_for ids)))
      | _ \<Rightarrow> Response 404 (Inr JNull))"

definition failing_first :: "server \<Rightarrow> server" where
  "failing_first srv log request =
     (if filter is_request log = [] then Response 500 (Inr JNull) else srv log request)"

definition item_with_id :: "nat \<Rightarrow> item" where
  "item_with_id n =
     \<lparr>item_id = n, isRegularItem = True, itemType = ''journalArticle'', fieldValues = (\<lambda>_. []),
      stored = Some \<lparr>sd_citationCount = Some 1, sd_influentialCitationCount = None,
                     sd_referenceCount = None, sd_paperId = Some (sid n),
                     sd_lastUpdated = ''11/2/2026'', sd_arXivId = None, sd_fieldsOfStudy = None\<rparr>\<rparr>"

definition ids600 :: "string list" where
  "ids600 = map sid [0..<600]"

definition ids501 :: "string list" where
  "ids501 = map sid [0..<501]"

definition items501 :: "item list" where
  "items501 = map item_with_id [0..<501]"

text \<open>An item with a DOI, a PMID and two arXiv ids, and the lookups it gives rise to.\<close>

definition paper_record :: item where
  "paper_record =
     \<lparr>item_id = 21, isRegularItem = True, itemType = ''journalArticle'',
      fieldValues = (\<lambda>name. if name = ''DOI'' then ''10.1000/xyz''
                             else if name = ''extra'' then ''PMID: 12345 arXiv: 1706.03762''
                             else if name = ''url'' then ''https://arxiv.org/abs/9999.00001''
                             else if name = ''title'' then ''Attention Is All You Need''
                             else []),
      stored = None\<rparr>"

definition paper_record_urls :: "string list" where
  "paper_record_urls =
     [''https://api.semanticscholar.org/graph/v1/paper/DOI:10.1000%2Fxyz?fields=paperId,citationCount'',
      ''https://api.semanticscholar.org/graph/v1/paper/ARXIV:1706.03762?fields=paperId,citationCount'',
      ''https://api.semanticscholar.org/graph/v1/paper/PMID:12345?fields=paperId,citationCount'']"

text \<open>
  An item whose arXiv id is found in its URL only, with a PMID, a DOI, a title and a
  catalog id in its storage note; the four lookups and the title search it gives rise to;
  and the answer of a catalog that does not know a paper.
\<close>

definition annotated_record :: item where
  "annotated_record =
     \<lparr>item_id = 22, isRegularItem = True, itemType = ''journalArticle'',
      fieldValues = (\<lambda>name. if name = ''DOI'' then ''10.1000/xyz''
                             else if name = ''extra'' then ''PMID: 12345''
                             else if name = ''url'' then ''https://arxiv.org/abs/1706.03762''
                             else if name = ''title'' then ''Attention Is All You Need''
                             else []),
      stored = Some \<lparr>sd_citationCount = Some 1, sd_influentialCitationCount = None,
                     sd_referenceCount = None, sd_paperId = Some ''abc123'',
                     sd_lastUpdated = ''11/2/2026'', sd_arXivId = None, sd_fieldsOfStudy = None\<rparr>\<rparr>"

definition annotated_record_urls :: "string list" where
  "annotated_record_urls =
     [''https://api.semanticscholar.org/graph/v1/paper/DOI:10.1000%2Fxyz?fields=paperId,citationCount'',
      ''https://api.semanticscholar.org/graph/v1/paper/ARXIV:1706.03762?fields=paperId,citationCount'',
      ''https://api.semanticscholar.org/graph/v1/paper/PMID:12345?fields=paperId,citationCount'',
      ''https://api.semanticscholar.org/graph/v1/paper/abc123?fields=paperId,citationCount'']"

definition annotated_record_search :: string where
  "annotated_record_search =
     ''https://api.semanticscholar.org/graph/v1/paper/search?query=Attention%20Is%20All%20You%20Need&fields=paperId,citationCount,title&limit=5''"

definition not_found :: http_result where
  "not_found = Response 404 (Inr JNull)"

text \<open>
  A catalog that answers every request with status 429, and \<^verbatim>\<open>Zotero.Promise.delay\<close> as
  an event of the log.
\<close>

definition throttling_catalog :: server where
  "throttling_catalog log request = Response 429 (Inr JNull)"

definition sleep_event :: "event list delayFn" where
  "sleep_event ms log = log @ [Sleep ms]"

text \<open>A catalog that answers with status 429 once it has received \<open>n\<close> requests.\<close>

definition throttle_after :: "nat \<Rightarrow> server \<Rightarrow> server" where
  "throttle_after n srv log request =
     (if n \<le> length (filter is_request log) then Response 429 (Inr JNull) else srv log request)"


section \<open>Properties of the retry scheduler\<close>

lemma retry_iteration_queue:
  "retryQueue st = e # rest \<Longrightarrow>
   retryQueue (fst (retry_iteration fetchCb applyCb delay (st, w))) =
     (if rateLimited (fst (fetchCb (item e) w))
      then \<lparr>item = item e, retryCount = retryCount e + 1\<rparr> # rest else rest)"
  by (simp add: retry_iteration_def Let_def split: prod.splits)

lemma retry_iteration_delay:
  "retryQueue st = e # rest \<Longrightarrow>
   retryDelay (fst (retry_iteration fetchCb applyCb delay (st, w))) =
     (if rateLimited (fst (fetchCb (item e) w)) then min (retryDelay st * 2) maxRetryDelay
      else if truthy (data (fst (fetchCb (item e) w))) then 2000 else retryDelay st)"
  by (simp add: retry_iteration_def Let_def split: prod.splits)

lemma addToRetryQueue_delay [simp]: "retryDelay (addToRetryQueue st it rc) = retryDelay st"
  by (simp add: addToRetryQueue_def)

lemma retry_iteration_bounds:
  assumes "delay_in_bounds st"
  shows "delay_in_bounds (fst (retry_iteration fetchCb applyCb delay (st, w)))"
proof (cases "retryQueue st")
  case Nil
  then show ?thesis using assms by (simp add: retry_iteration_def)
next
  case (Cons e rest)
  show ?thesis
    using assms unfolding delay_in_bounds_def retry_iteration_delay [OF Cons]
    by (simp add: maxRetryDelay_def)
qed

lemma run_ops_bounds:
  "delay_in_bounds (fst s) \<Longrightarrow> delay_in_bounds (fst (run_ops fetchCb applyCb delay ops s))"
proof (induction ops arbitrary: s)
  case Nil
  then show ?case by simp
next
  case (Cons x ops)
  show ?case
  proof (cases x)
    case (Enqueue it rc)
    have "delay_in_bounds (addToRetryQueue (fst s) it rc)"
      using Cons.prems by (simp add: delay_in_bounds_def)
    then show ?thesis using Cons.IH Enqueue by simp
  next
    case DrainPass
    have "delay_in_bounds (fst (retry_iteration fetchCb applyCb delay s))"
      using retry_iteration_bounds [of "fst s" fetchCb applyCb delay "snd s"] Cons.prems by simp
    then show ?thesis using Cons.IH Cons.prems DrainPass by simp
  qed
qed

lemma queued_ids_add:
  "queued_ids (addToRetryQueue st it rc) =
     (if rc \<ge> maxRetries \<or> item_id it \<in> set (queued_ids st) then queued_ids st
      else queued_ids st @ [item_id it])"
  by (force simp: addToRetryQueue_def queued_ids_def list_ex_iff)

lemma queued_ids_iteration:
  "retryQueue st = e # rest \<Longrightarrow>
   queued_ids (fst (retry_iteration fetchCb applyCb delay (st, w))) =
     (if rateLimited (fst (fetchCb (item e) w)) then queued_ids st else tl (queued_ids st))"
  by (simp add: queued_ids_def retry_iteration_queue)

lemma run_ops_distinct:
  "distinct (queued_ids (fst s)) \<Longrightarrow> distinct (queued_ids (fst (run_ops fetchCb applyCb delay ops s)))"
proof (induction ops arbitrary: s)
  case Nil
  then show ?case by simp
next
  case (Cons x ops)
  show ?case
  proof (cases x)
    case (Enqueue it rc)
    have "distinct (queued_ids (addToRetryQueue (fst s) it rc))"
      using Cons.prems by (simp add: queued_ids_add)
    then show ?thesis using Cons.IH Enqueue by simp
  next
    case DrainPass
    show ?thesis
    proof (cases "retryQueue (fst s)")
      case Nil
      then show ?thesis using Cons DrainPass by simp
    next
      case (Cons e rest)
      have "distinct (queued_ids (fst (retry_iteration fetchCb applyCb delay (fst s, snd s))))"
        using \<open>distinct (queued_ids (fst s))\<close> unfolding queued_ids_iteration [OF Cons]
        by (simp add: distinct_tl)
      then show ?thesis using Cons.IH [of "retry_iteration fetchCb applyCb delay s"] DrainPass Cons
        by simp
    qed
  qed
qed

lemma rate_limited_passes:
  assumes "\<And>w. rateLimited (fst (fetchCb it w))"
  shows "retryQueue st = [\<lparr>item = it, retryCount = k\<rparr>] \<Longrightarrow>
   retryQueue (fst ((retry_iteration fetchCb applyCb delay ^^ n) (st, w))) =
     [\<lparr>item = it, retryCount = k + n\<rparr>]"
proof (induction n arbitrary: st w k)
  case 0
  then show ?case by simp
next
  case (Suc n)
  obtain st' w' where it: "retry_iteration fetchCb applyCb delay (st, w) = (st', w')"
    by (cases "retry_iteration fetchCb applyCb delay (st, w)")
  have "retryQueue st' = [\<lparr>item = it, retryCount = k + 1\<rparr>]"
    using retry_iteration_queue [OF Suc.prems, of fetchCb applyCb delay w] it assms
    by simp
  from Suc.IH [OF this] show ?case
    by (simp add: funpow_swap1 it)
qed

lemma rate_limited_loop:
  assumes "\<And>w. rateLimited (fst (fetchCb it w))"
  shows "retryQueue st = [\<lparr>item = it, retryCount = k\<rparr>] \<Longrightarrow>
   retry_loop n fetchCb applyCb delay (st, w) = None"
proof (induction n arbitrary: st w k)
  case 0
  then show ?case by simp
next
  case (Suc n)
  obtain st' w' where it: "retry_iteration fetchCb applyCb delay (st, w) = (st', w')"
    by (cases "retry_iteration fetchCb applyCb delay (st, w)")
  have "retryQueue st' = [\<lparr>item = it, retryCount = k + 1\<rparr>]"
    using retry_iteration_queue [OF Suc.prems, of fetchCb applyCb delay w] it assms
    by simp
  from Suc.IH [OF this] show ?case
    using Suc.prems by (simp add: it)
qed

lemma throttled_fetch:
  "rateLimited (fst (fetchDataForItem throttling_catalog shouldFetchField searchMode paper_record w))"
  by (simp add: fetchDataForItem_def Let_def getDOI_def getField_def paper_record_def fetchByDOI_def
      makeRequest_def throttling_catalog_def RateLimited_def)

text \<open>
  Claim C1. The claim says that no entry with \<open>retryCount \<ge> maxRetries\<close> is ever in the
  queue, because a rate-limited entry is dropped on re-insertion once its count reaches
  \<open>maxRetries\<close>. The drain re-inserts with \<^verbatim>\<open>unshift\<close> and never compares the count with
  \<^verbatim>\<open>maxRetries\<close>: with one record queued, the plugin's own callbacks and a catalog that
  answers every request with status 429, five passes leave the record in the queue with
  \<open>retryCount = 5 = maxRetries\<close>, and the drain does not return for any number of passes.
\<close>

theorem drain_reinsert_ignores_maxRetries:
  "retryQueue (fst ((retry_iteration (fetchDataForItem throttling_catalog (\<lambda>_. False) ''identifiers'')
        no_apply sleep_event ^^ 5)
       (addToRetryQueue init paper_record 0, []))) =
     [\<lparr>item = paper_record, retryCount = 5\<rparr>]
   \<and> maxRetries = 5
   \<and> (\<forall>fuel. processRetryQueue fuel (fetchDataForItem throttling_catalog (\<lambda>_. False) ''identifiers'')
         no_apply sleep_event (addToRetryQueue init paper_record 0, []) = None)"
proof -
  let ?f = "fetchDataForItem throttling_catalog (\<lambda>_. False) ''identifiers''"
  have rl: "rateLimited (fst (?f paper_record w))" for w
    by (rule throttled_fetch)
  have q: "retryQueue (addToRetryQueue init paper_record 0) = [\<lparr>item = paper_record, retryCount = 0\<rparr>]"
    by (simp add: addToRetryQueue_def init_def maxRetries_def)
  have "retryQueue (fst ((retry_iteration ?f no_apply sleep_event ^^ 5)
       (addToRetryQueue init paper_record 0, []))) = [\<lparr>item = paper_record, retryCount = 0 + 5\<rparr>]"
    by (rule rate_limited_passes [where fetchCb = ?f and it = paper_record, OF rl q])
  moreover have "processRetryQueue fuel ?f no_apply sleep_event
         (addToRetryQueue init paper_record 0, []) = None" for fuel
  proof -
    have "retry_loop fuel ?f no_apply sleep_event
            ((addToRetryQueue init paper_record 0)\<lparr>isProcessingRetryQueue := True\<rparr>, l) = None" for l
      by (rule rate_limited_loop [where fetchCb = ?f and k = 0 and it = paper_record, OF rl])
        (use q in simp)
    then show ?thesis
      by (simp add: processRetryQueue_def q Let_def addToRetryQueue_def init_def maxRetries_def)
  qed
  ultimately show ?thesis by (simp add: maxRetries_def)
qed

text \<open>
  Claim C6. In every pass of the drain loop the backoff delay becomes
  \<open>min (2 * delay) 60000\<close> when the fetch result is rate limited, \<open>2000\<close> when it carries
  data, and stays as it is otherwise; it starts at \<open>2000\<close>, enqueueing leaves it alone,
  and after every sequence of enqueue calls and drain passes it lies between \<open>2000\<close> and
  \<open>60000\<close>.
\<close>

theorem backoff_delay_policy:
  "(retryQueue st = e # rest \<longrightarrow>
      retryDelay (fst (retry_iteration fetchCb applyCb delay (st, w))) =
        (let result = fst (fetchCb (item e) w) in
         if rateLimited result then min (2 * retryDelay st) 60000
         else if truthy (data result) then 2000
         else retryDelay st))
   \<and> retryDelay init = 2000
   \<and> retryDelay (addToRetryQueue st it rc) = retryDelay st
   \<and> (let st' = fst (run_ops fetchCb applyCb delay ops (init, w0))
      in 2000 \<le> retryDelay st' \<and> retryDelay st' \<le> 60000)"
proof -
  have "delay_in_bounds (fst (init, w0))"
    by (simp add: delay_in_bounds_def init_def maxRetryDelay_def)
  from run_ops_bounds [OF this] have
    "delay_in_bounds (fst (run_ops fetchCb applyCb delay ops (init, w0)))" .
  then show ?thesis
    by (simp add: retry_iteration_delay delay_in_bounds_def maxRetryDelay_def Let_def
        mult.commute init_def)
qed

theorem backoff_delay_policy_witness:
  "retryDelay (fst (retry_iteration scripted_fetch no_apply no_delay
       (addToRetryQueue init (sample_item 7) 0, [RateLimited]))) = 4000
   \<and> retryDelay (fst (run_ops scripted_fetch no_apply no_delay
       [Enqueue (sample_item 7) 0, DrainPass, DrainPass, DrainPass, DrainPass]
       (init, [RateLimited, RateLimited, NotFound, Found (JObj [])]))) \<le> 60000"
proof -
  have q: "retryQueue (addToRetryQueue init (sample_item 7) 0) =
      \<lparr>item = sample_item 7, retryCount = 0\<rparr> # []"
    by (simp add: addToRetryQueue_def init_def maxRetries_def)
  note t = backoff_delay_policy [of "addToRetryQueue init (sample_item 7) 0"
        "\<lparr>item = sample_item 7, retryCount = 0\<rparr>" "[]" scripted_fetch no_apply no_delay
        "[RateLimited]" "sample_item 7" 0
        "[Enqueue (sample_item 7) 0, DrainPass, DrainPass, DrainPass, DrainPass]"
        "[RateLimited, RateLimited, NotFound, Found (JObj [])]", unfolded Let_def]
  from t q have "retryDelay (fst (retry_iteration scripted_fetch no_apply no_delay
       (addToRetryQueue init (sample_item 7) 0, [RateLimited]))) =
     (if rateLimited (fst (scripted_fetch (item \<lparr>item = sample_item 7, retryCount = 0\<rparr>) [RateLimited]))
      then min (2 * retryDelay (addToRetryQueue init (sample_item 7) 0)) 60000
      else if truthy (data (fst (scripted_fetch (item \<lparr>item = sample_item 7, retryCount = 0\<rparr>) [RateLimited])))
        then 2000 else retryDelay (addToRetryQueue init (sample_item 7) 0))"
    by blast
  then have a: "retryDelay (fst (retry_iteration scripted_fetch no_apply no_delay
       (addToRetryQueue init (sample_item 7) 0, [RateLimited]))) = 4000"
    by (simp add: scripted_fetch_def RateLimited_def init_def)
  from t have b: "retryDelay (fst (run_ops scripted_fetch no_apply no_delay
       [Enqueue (sample_item 7) 0, DrainPass, DrainPass, DrainPass, DrainPass]
       (init, [RateLimited, RateLimited, NotFound, Found (JObj [])]))) \<le> 60000"
    by blast
  from a b show ?thesis by blast
qed

lemma retry_iteration_split:
  "retry_iteration fetchCb applyCb delay (st, w) =
     (case retry_shift st of
        None \<Rightarrow> (st, w)
      | Some (e, st1) \<Rightarrow>
          (let (result, w1) = fetchCb (item e) w
           in retry_resume applyCb delay e result (st1, w1)))"
  by (simp add: retry_iteration_def retry_shift_def retry_resume_def Let_def
      split: list.splits prod.splits)

text \<open>
  Claim C7. The claim says that a record is never present twice in the retry queue.
  \<^verbatim>\<open>addToRetryQueue\<close> looks for the record's id before it pushes, but the drain re-inserts
  with \<^verbatim>\<open>unshift\<close> and looks for nothing. With record 7 queued, the drain takes its entry
  off the queue and awaits the fetch; an \<^verbatim>\<open>addToRetryQueue\<close> for record 7 that arrives
  during this wait finds the queue empty and pushes; the awaited fetch comes back rate
  limited and the drain puts its entry in front: the queue then holds record 7 twice, with
  \<open>retryCount\<close> 1 and 0. The same enqueue after the pass has resumed is a no-op.
\<close>

theorem enqueue_during_pass_duplicates:
  "queued_ids (fst (run_steps no_apply no_delay
       [Enqueued (sample_item 7) 0, Shift, Enqueued (sample_item 7) 0, Resume RateLimited]
       (init, None, ()))) = [7, 7]
   \<and> retryQueue (fst (run_steps no_apply no_delay
       [Enqueued (sample_item 7) 0, Shift, Enqueued (sample_item 7) 0, Resume RateLimited]
       (init, None, ()))) =
     [\<lparr>item = sample_item 7, retryCount = 1\<rparr>, \<lparr>item = sample_item 7, retryCount = 0\<rparr>]
   \<and> queued_ids (fst (run_steps no_apply no_delay
       [Enqueued (sample_item 7) 0, Shift, Resume RateLimited, Enqueued (sample_item 7) 0]
       (init, None, ()))) = [7]"
  by (simp add: queued_ids_def addToRetryQueue_def init_def maxRetries_def retry_shift_def
      retry_resume_def RateLimited_def sample_item_def no_delay_def Let_def)

section \<open>Properties of the field merge\<close>

lemma getField_write_field:
  "getField (write_field ow name v it) n =
     (if n = name \<and> (ow \<or> getField it name = []) then v else getField it n)"
  by (simp add: write_field_def getField_def setField_def)

lemma getField_setStoredData [simp]: "getField (setStoredData it sd) n = getField it n"
  by (simp add: setStoredData_def getField_def)

lemma venueField_write_field [simp]: "venueField (write_field ow name v it) = venueField it"
  by (simp add: write_field_def venueField_def setField_def)

lemma venueField_setStoredData [simp]: "venueField (setStoredData it sd) = venueField it"
  by (simp add: setStoredData_def venueField_def)

lemma venueField_neq [simp]:
  "venueField it \<noteq> ''DOI''" "venueField it \<noteq> ''abstractNote''"
  "venueField it \<noteq> ''date''" "venueField it \<noteq> ''url''"
  "''DOI'' \<noteq> venueField it" "''abstractNote'' \<noteq> venueField it"
  "''date'' \<noteq> venueField it" "''url'' \<noteq> venueField it"
  by (simp_all add: venueField_def)

lemmas apply_defs = apply_DOI_def apply_abstract_def apply_publicationDate_def apply_venue_def
  apply_openAccessPdf_def

lemma venueField_apply [simp]:
  "venueField (apply_DOI d sf ow it) = venueField it"
  "venueField (apply_abstract d sf ow it) = venueField it"
  "venueField (apply_publicationDate d sf ow it) = venueField it"
  "venueField (apply_venue d sf ow it) = venueField it"
  "venueField (apply_openAccessPdf d sf ow it) = venueField it"
  by (simp_all add: apply_defs Let_def)

lemma getField_apply_DOI:
  "getField (apply_DOI d sf ow it) n =
     (if n = ''DOI'' then merged_value it d sf ow ExpDOI else getField it n)"
  by (simp add: apply_DOI_def getField_write_field merged_value_def)

lemma getField_apply_abstract:
  "getField (apply_abstract d sf ow it) n =
     (if n = ''abstractNote'' then merged_value it d sf ow ExpAbstract else getField it n)"
  by (simp add: apply_abstract_def getField_write_field merged_value_def)

lemma getField_apply_publicationDate:
  "getField (apply_publicationDate d sf ow it) n =
     (if n = ''date'' then merged_value it d sf ow ExpDate else getField it n)"
  by (simp add: apply_publicationDate_def getField_write_field merged_value_def)

lemma getField_apply_venue:
  "getField (apply_venue d sf ow it) n =
     (if n = venueField it then merged_value it d sf ow ExpVenue else getField it n)"
  by (simp add: apply_venue_def getField_write_field merged_value_def Let_def)

lemma getField_apply_openAccessPdf:
  "getField (apply_openAccessPdf d sf ow it) n =
     (if n = ''url'' then merged_value it d sf ow ExpOpenAccessUrl else getField it n)"
  by (simp add: apply_openAccessPdf_def getField_write_field merged_value_def)

lemmas getField_apply = getField_apply_DOI getField_apply_abstract getField_apply_publicationDate
  getField_apply_venue getField_apply_openAccessPdf

lemma applyDataToItem_field:
  "isRegularItem it \<Longrightarrow>
   getField (applyDataToItem it (Some d) shouldFetchField ow today) (target_field it k) =
     merged_value it d shouldFetchField ow k"
  by (cases k) (auto simp: applyDataToItem_def getField_apply merged_value_def)

lemma truthy_str_the: "truthy_str v \<Longrightarrow> the v \<noteq> []"
  by (cases v) simp_all

lemma merged_value_nonempty:
  "getField it (target_field it k) \<noteq> [] \<Longrightarrow> merged_value it d sf ow k \<noteq> []"
  by (simp add: merged_value_def truthy_str_the)

lemma apply_keeps:
  assumes "getField it n \<noteq> []"
  shows "getField (apply_DOI d sf ow it) n \<noteq> []"
    and "getField (apply_abstract d sf ow it) n \<noteq> []"
    and "getField (apply_publicationDate d sf ow it) n \<noteq> []"
    and "getField (apply_venue d sf ow it) n \<noteq> []"
    and "getField (apply_openAccessPdf d sf ow it) n \<noteq> []"
  using assms merged_value_nonempty [of it ExpDOI d sf ow]
    merged_value_nonempty [of it ExpAbstract d sf ow]
    merged_value_nonempty [of it ExpDate d sf ow]
    merged_value_nonempty [of it ExpVenue d sf ow]
    merged_value_nonempty [of it ExpOpenAccessUrl d sf ow]
  by (auto simp: getField_apply)

lemma applyDataToItem_never_clears:
  assumes "getField it n \<noteq> []"
  shows "getField (applyDataToItem it payload shouldFetchField ow today) n \<noteq> []"
proof (cases payload)
  case None
  then show ?thesis using assms by (simp add: applyDataToItem_def)
next
  case (Some d)
  have "getField (setStoredData it (build_storedData d shouldFetchField today)) n \<noteq> []"
    using assms by simp
  then show ?thesis
    using assms unfolding Some applyDataToItem_def
    by (simp add: apply_keeps)
qed

text \<open>
  Claim C8. For a regular item and an exported field (DOI, abstract, date, venue,
  open-access URL) whose fetch flag is set: without overwriting, a non-empty value of
  the field survives \<^verbatim>\<open>applyDataToItem\<close> unchanged; with overwriting, the field holds the
  catalog value whenever the catalog supplies a non-empty one; and no field of the item
  that was non-empty is empty afterwards.
\<close>

theorem merge_policy:
  assumes "isRegularItem it" and "shouldFetchField (fetch_flag k)"
  shows "(\<not> overwriteExisting \<and> getField it (target_field it k) \<noteq> [] \<longrightarrow>
            getField (applyDataToItem it (Some d) shouldFetchField overwriteExisting today)
              (target_field it k) = getField it (target_field it k))
       \<and> (overwriteExisting \<and> truthy_str (catalog_value d k) \<longrightarrow>
            getField (applyDataToItem it (Some d) shouldFetchField overwriteExisting today)
              (target_field it k) = the (catalog_value d k))
       \<and> (\<forall>name. getField it name \<noteq> [] \<longrightarrow>
            getField (applyDataToItem it (Some d) shouldFetchField overwriteExisting today) name \<noteq> [])"
  using assms applyDataToItem_never_clears [of it _ "Some d" shouldFetchField overwriteExisting today]
  by (simp add: applyDataToItem_field merged_value_def)


theorem merge_policy_witness:
  "getField library_item ''abstractNote'' = ''old abstract''
   \<and> getField (applyDataToItem library_item (Some catalog_paper) (\<lambda>_. True) False ''11/2/2026'')
        ''abstractNote'' = ''old abstract''
   \<and> getField (applyDataToItem library_item (Some catalog_paper) (\<lambda>_. True) True ''11/2/2026'')
        ''abstractNote'' = ''new abstract''
   \<and> getField (applyDataToItem library_item (Some catalog_paper) (\<lambda>_. True) True ''11/2/2026'')
        ''proceedingsTitle'' = ''NeurIPS''"
proof -
  have r: "isRegularItem library_item"
    by (simp add: library_item_def)
  have old: "getField library_item ''abstractNote'' = ''old abstract''"
    by (simp add: library_item_def getField_def)
  have keep: "getField (applyDataToItem library_item (Some catalog_paper) (\<lambda>_. True) False ''11/2/2026'')
        ''abstractNote'' = ''old abstract''"
    using merge_policy [where it = library_item and shouldFetchField = "\<lambda>_. True"
        and k = ExpAbstract and overwriteExisting = False and d = catalog_paper
        and today = "''11/2/2026''"] r old
    by simp
  have over: "getField (applyDataToItem library_item (Some catalog_paper) (\<lambda>_. True) True ''11/2/2026'')
        ''abstractNote'' = ''new abstract''"
    using merge_policy [where it = library_item and shouldFetchField = "\<lambda>_. True"
        and k = ExpAbstract and overwriteExisting = True and d = catalog_paper
        and today = "''11/2/2026''"] r
    by (simp add: catalog_paper_def)
  have v: "target_field library_item ExpVenue = ''proceedingsTitle''"
    by (simp add: venueField_def library_item_def)
  have c: "catalog_value catalog_paper ExpVenue = Some ''NeurIPS''"
    by (simp add: catalog_paper_def js_or_def)
  have fill: "getField (applyDataToItem library_item (Some catalog_paper) (\<lambda>_. True) True ''11/2/2026'')
        ''proceedingsTitle'' = ''NeurIPS''"
    using merge_policy [where it = library_item and shouldFetchField = "\<lambda>_. True"
        and k = ExpVenue and overwriteExisting = True and d = catalog_paper
        and today = "''11/2/2026''"] r
    unfolding v c by simp
  from old keep over fill show ?thesis by blast
qed

section \<open>Properties of the catalog client\<close>

lemma str_includes_iff: "str_includes s sub \<longleftrightarrow> (\<exists>pre post. s = pre @ sub @ post)"
proof (induction s)
  case Nil
  then show ?case by simp
next
  case (Cons c cs)
  show ?case
  proof
    assume "str_includes (c # cs) sub"
    then consider "prefix sub (c # cs)" | "str_includes cs sub" by auto
    then show "\<exists>pre post. c # cs = pre @ sub @ post"
    proof cases
      case 1
      then obtain post where "c # cs = sub @ post" by (auto simp: prefix_def)
      then have "c # cs = [] @ sub @ post" by simp
      then show ?thesis by blast
    next
      case 2
      then obtain pre post where "cs = pre @ sub @ post" using Cons.IH by blast
      then have "c # cs = (c # pre) @ sub @ post" by simp
      then show ?thesis by blast
    qed
  next
    assume "\<exists>pre post. c # cs = pre @ sub @ post"
    then obtain pre post where e: "c # cs = pre @ sub @ post" by blast
    show "str_includes (c # cs) sub"
    proof (cases pre)
      case Nil
      then have "prefix sub (c # cs)" using e by (simp add: prefix_def)
      then show ?thesis by simp
    next
      case (Cons p pre')
      then have "cs = pre' @ sub @ post" using e by simp
      then have "str_includes cs sub" using Cons.IH by blast
      then show ?thesis by simp
    qed
  qed
qed

lemma on_error_eq:
  "on_error (Error msg) = (if str_includes msg ''429'' then RateLimited else NotFound)"
  by (cases msg) simp_all

lemma lookup_is_makeRequest:
  "lookupByIdentifier srv log kind v fieldsParam = makeRequest srv log (lookup_url kind v fieldsParam)"
  by (cases kind)
    (simp_all add: fetchByDOI_def fetchByArxivId_def fetchByPMID_def fetchByScholarId_def)

text \<open>
  Claim C4. Each of the four single-identifier lookups issues exactly one GET request and
  classifies its answer in the same way: status 429 gives \<open>RateLimited\<close>; any other
  status but 200 gives \<open>NotFound\<close>; a thrown error, from the transport or from parsing the
  body of a 200 response, gives \<open>RateLimited\<close> if its message contains \<open>429\<close> and
  \<open>NotFound\<close> otherwise; a 200 response whose body parses gives \<open>Found\<close> with the parsed
  payload, that is the result object carrying the payload with \<open>rateLimited = False\<close>.
\<close>

theorem lookup_classification:
  "snd (lookupByIdentifier srv log kind v fieldsParam) = log @ [HttpGet (lookup_url kind v fieldsParam)]
   \<and> (\<forall>body. srv log (HttpGet (lookup_url kind v fieldsParam)) = Response 429 body \<longrightarrow>
         fst (lookupByIdentifier srv log kind v fieldsParam) = RateLimited)
   \<and> (\<forall>status body. srv log (HttpGet (lookup_url kind v fieldsParam)) = Response status body
         \<and> status \<noteq> 429 \<and> status \<noteq> 200 \<longrightarrow>
         fst (lookupByIdentifier srv log kind v fieldsParam) = NotFound)
   \<and> (\<forall>msg. srv log (HttpGet (lookup_url kind v fieldsParam)) = Throws (Error msg)
           \<or> srv log (HttpGet (lookup_url kind v fieldsParam)) = Response 200 (Inl (Error msg)) \<longrightarrow>
         fst (lookupByIdentifier srv log kind v fieldsParam) =
           (if \<exists>pre post. msg = pre @ ''429'' @ post then RateLimited else NotFound))
   \<and> (\<forall>payload. srv log (HttpGet (lookup_url kind v fieldsParam)) = Response 200 (Inr payload) \<longrightarrow>
         fst (lookupByIdentifier srv log kind v fieldsParam) = Found payload)"
  unfolding lookup_is_makeRequest str_includes_iff [symmetric]
  by (auto simp: makeRequest_def on_error_eq)


lemma doi_lookup_url:
  "lookup_url KindDOI ''10.1000/xyz'' ''paperId,citationCount'' = doi_lookup_url"
  by (simp add: doi_lookup_url_def BASE_URL_def encodeURIComponent_def encode_char_def
      uri_unreserved_def is_digit_def code_unit_def percent_byte_def hex_digit_def)

theorem lookup_classification_witness:
  "lookupByIdentifier (scripted_server [Response 429 (Inr JNull)]) [] KindDOI ''10.1000/xyz''
       ''paperId,citationCount'' = (RateLimited, [HttpGet doi_lookup_url])
   \<and> fst (lookupByIdentifier (scripted_server [Response 404 (Inr JNull)]) [] KindDOI ''10.1000/xyz''
       ''paperId,citationCount'') = NotFound
   \<and> fst (lookupByIdentifier (scripted_server [Throws (Error ''failed with status code 429'')]) []
       KindDOI ''10.1000/xyz'' ''paperId,citationCount'') = RateLimited
   \<and> fst (lookupByIdentifier (scripted_server [Response 200 (Inl (Error ''unexpected end of data''))]) []
       KindDOI ''10.1000/xyz'' ''paperId,citationCount'') = NotFound
   \<and> fst (lookupByIdentifier (scripted_server [Response 200 (Inr (JObj [(''paperId'', JStr ''abc123'')]))]) []
       KindDOI ''10.1000/xyz'' ''paperId,citationCount'') = Found (JObj [(''paperId'', JStr ''abc123'')])"
proof -
  have a: "scripted_server [x] [] (HttpGet doi_lookup_url) = x" for x
    by (simp add: scripted_server_def)
  have i1: "\<exists>pre post. ''failed with status code 429'' = pre @ ''429'' @ post"
    unfolding str_includes_iff [symmetric] by simp
  have i2: "\<not> (\<exists>pre post. ''unexpected end of data'' = pre @ ''429'' @ post)"
    unfolding str_includes_iff [symmetric] by simp
  note t = lookup_classification [where log = "[]" and kind = KindDOI and v = "''10.1000/xyz''"
      and fieldsParam = "''paperId,citationCount''", unfolded doi_lookup_url]
  have 1: "lookupByIdentifier (scripted_server [Response 429 (Inr JNull)]) [] KindDOI ''10.1000/xyz''
       ''paperId,citationCount'' = (RateLimited, [HttpGet doi_lookup_url])"
    using t [of "scripted_server [Response 429 (Inr JNull)]"] a
    by (simp add: prod_eq_iff)
  have 2: "fst (lookupByIdentifier (scripted_server [Response 404 (Inr JNull)]) [] KindDOI ''10.1000/xyz''
       ''paperId,citationCount'') = NotFound"
    using t [of "scripted_server [Response 404 (Inr JNull)]"] a by simp
  have 3: "fst (lookupByIdentifier (scripted_server [Throws (Error ''failed with status code 429'')]) []
       KindDOI ''10.1000/xyz'' ''paperId,citationCount'') = RateLimited"
    using t [of "scripted_server [Throws (Error ''failed with status code 429'')]"] a i1
    by (simp del: append_eq_append_conv2)
  have 4: "fst (lookupByIdentifier (scripted_server [Response 200 (Inl (Error ''unexpected end of data''))]) []
       KindDOI ''10.1000/xyz'' ''paperId,citationCount'') = NotFound"
    using t [of "scripted_server [Response 200 (Inl (Error ''unexpected end of data''))]"] a i2
    by simp
  have 5: "fst (lookupByIdentifier (scripted_server [Response 200 (Inr (JObj [(''paperId'', JStr ''abc123'')]))]) []
       KindDOI ''10.1000/xyz'' ''paperId,citationCount'') = Found (JObj [(''paperId'', JStr ''abc123'')])"
    using t [of "scripted_server [Response 200 (Inr (JObj [(''paperId'', JStr ''abc123'')]))]"] a
    by simp
  from 1 2 3 4 5 show ?thesis by blast
qed

subsection \<open>Title search\<close>

lemma match_loop_match:
  "title_matches title p \<Longrightarrow> match_loop (normalize_string title) (p # post) = Inr (Found p)"
  by (auto simp: title_matches_def split: sum.splits json.splits)

lemma match_loop_skip:
  "has_string_title p \<Longrightarrow> \<not> title_matches title p \<Longrightarrow>
   match_loop (normalize_string title) (p # post) = match_loop (normalize_string title) post"
  by (auto simp: title_matches_def has_string_title_def split: sum.splits json.splits)

lemma match_loop_skip_all:
  "\<forall>q \<in> set pre. has_string_title q \<and> \<not> title_matches title q \<Longrightarrow>
   match_loop (normalize_string title) (pre @ post) = match_loop (normalize_string title) post"
proof (induction pre)
  case Nil
  show ?case by simp
next
  case (Cons q pre)
  then show ?case
    using match_loop_skip [of q title "pre @ post"] by (simp del: match_loop.simps)
qed

lemma search_body_array:
  "get_prop responseData ''data'' = Inr (JArr papers) \<Longrightarrow>
   search_body title (Inr responseData) = match_loop (normalize_string title) papers"
  by (cases papers) (simp_all add: search_body_def)

lemma fetchByTitle_200:
  "srv log (HttpGet (title_search_url title fieldsParam)) = Response 200 (Inr responseData) \<Longrightarrow>
   get_prop responseData ''data'' = Inr (JArr papers) \<Longrightarrow>
   fst (fetchByTitle srv log title fieldsParam) =
     (case match_loop (normalize_string title) papers of Inl e \<Rightarrow> on_error e | Inr r \<Rightarrow> r)"
  by (simp add: fetchByTitle_def Let_def search_body_array)

lemma get_prop_title_error:
  "get_prop v ''title'' = Inl e \<Longrightarrow> on_error e = NotFound"
  by (cases v) auto

lemma normalizeTitle_error:
  "normalizeTitle v = Inl e \<Longrightarrow> on_error e = NotFound"
  by (cases v) auto

lemma match_loop_null_title:
  assumes "get_prop p ''title'' = Inr JNull \<or> get_prop p ''title'' = Inr JUndefined"
    and "\<forall>q \<in> set pre. \<not> title_matches title q"
  shows "(case match_loop (normalize_string title) (pre @ p # post) of
            Inl e \<Rightarrow> on_error e | Inr r \<Rightarrow> r) = NotFound"
  using assms(2)
proof (induction pre)
  case Nil
  show ?case using assms(1) by (auto simp: NotFound_def RateLimited_def)
next
  case (Cons q pre)
  then have nm: "\<not> title_matches title q" and rest: "\<forall>q \<in> set pre. \<not> title_matches title q"
    by simp_all
  show ?case
  proof (cases "get_prop q ''title''")
    case (Inl e)
    then show ?thesis using get_prop_title_error [OF Inl] by simp
  next
    case (Inr t)
    show ?thesis
    proof (cases "normalizeTitle t")
      case (Inl e)
      then show ?thesis using Inr normalizeTitle_error [OF Inl] by simp
    next
      case inr: (Inr n)
      then obtain s where t: "t = JStr s" by (cases t) auto
      have "\<not> (truthy t \<and> n = normalize_string title)"
        using nm Inr inr t by (auto simp: title_matches_def)
      then show ?thesis using Inr inr Cons.IH [OF rest] by auto
    qed
  qed
qed






















lemma fetchByTitle_log:
  "snd (fetchByTitle srv log title fieldsParam) = log @ [HttpGet (title_search_url title fieldsParam)]"
  by (simp add: fetchByTitle_def Let_def)



lemma scripted_first: "scripted_server (x # xs) [] request = x"
  by (simp add: scripted_server_def)

lemma candidate_title [simp]: "get_prop (candidate t) ''title'' = Inr t"
  by (simp add: candidate_def)



text \<open>
  Claim C10, amended. On a 200 response in which a candidate with a \<^verbatim>\<open>null\<close> or missing
  title comes before any exactly matching candidate, the normalisation of that title
  throws, the error is caught inside the search (its message does not contain \<open>429\<close>), and
  the call returns \<open>NotFound\<close> after its one request. When an exact match comes first, with
  string titles before it, the search returns it as \<open>Found\<close> and the later candidate is
  never normalised.
\<close>

theorem title_search_null_title:
  "(srv log (HttpGet (title_search_url title fieldsParam)) = Response 200 (Inr responseData)
      \<and> get_prop responseData ''data'' = Inr (JArr (pre @ p # post))
      \<and> (get_prop p ''title'' = Inr JNull \<or> get_prop p ''title'' = Inr JUndefined)
      \<and> (\<forall>q \<in> set pre. \<not> title_matches title q) \<longrightarrow>
    fetchByTitle srv log title fieldsParam = (NotFound, log @ [HttpGet (title_search_url title fieldsParam)]))
   \<and> (\<exists>e. normalizeTitle JNull = Inl e \<and> on_error e = NotFound)
   \<and> (\<exists>e. normalizeTitle JUndefined = Inl e \<and> on_error e = NotFound)
   \<and> (srv log (HttpGet (title_search_url title fieldsParam)) = Response 200 (Inr responseData)
      \<and> get_prop responseData ''data'' = Inr (JArr (pre @ p # post))
      \<and> (\<forall>q \<in> set pre. has_string_title q \<and> \<not> title_matches title q)
      \<and> title_matches title p \<longrightarrow>
    fst (fetchByTitle srv log title fieldsParam) = Found p)"
proof -
  have nf: "fetchByTitle srv log title fieldsParam = (NotFound, log @ [HttpGet (title_search_url title fieldsParam)])"
    if "srv log (HttpGet (title_search_url title fieldsParam)) = Response 200 (Inr responseData)"
      and "get_prop responseData ''data'' = Inr (JArr (pre @ p # post))"
      and "get_prop p ''title'' = Inr JNull \<or> get_prop p ''title'' = Inr JUndefined"
      and "\<forall>q \<in> set pre. \<not> title_matches title q"
    using fetchByTitle_200 [where srv = srv and log = log, OF that(1,2)]
      match_loop_null_title [OF that(3,4), of post] fetchByTitle_log [of srv log title fieldsParam]
    by (simp add: prod_eq_iff del: match_loop.simps)
  have found: "fst (fetchByTitle srv log title fieldsParam) = Found p"
    if "srv log (HttpGet (title_search_url title fieldsParam)) = Response 200 (Inr responseData)"
      and "get_prop responseData ''data'' = Inr (JArr (pre @ p # post))"
      and "\<forall>q \<in> set pre. has_string_title q \<and> \<not> title_matches title q"
      and "title_matches title p"
    using fetchByTitle_200 [where srv = srv and log = log, OF that(1,2)]
      match_loop_skip_all [OF that(3), of "p # post"] match_loop_match [OF that(4), of post]
    by (simp del: match_loop.simps)
  have e1: "\<exists>e. normalizeTitle JNull = Inl e \<and> on_error e = NotFound"
    and e2: "\<exists>e. normalizeTitle JUndefined = Inl e \<and> on_error e = NotFound"
    by simp_all
  from nf found e1 e2 show ?thesis by blast
qed

text \<open>
  The claim as stated gives \<open>NotFound\<close> for every response that contains a candidate
  without a title. With an exact match in front of it the search returns \<open>Found\<close>.
\<close>

theorem match_before_null_title:
  "fst (fetchByTitle
         (scripted_server [search_response [candidate (JStr ''Deep Learning''), candidate JNull]])
         [] ''Deep Learning'' ''paperId,citationCount'') = Found (candidate (JStr ''Deep Learning''))
   \<and> Found (candidate (JStr ''Deep Learning'')) \<noteq> NotFound"
proof -
  have m: "title_matches ''Deep Learning'' (candidate (JStr ''Deep Learning''))"
    by (simp add: title_matches_def)
  have "fst (fetchByTitle
         (scripted_server [search_response [candidate (JStr ''Deep Learning''), candidate JNull]])
         [] ''Deep Learning'' ''paperId,citationCount'') =
        (case match_loop (normalize_string ''Deep Learning'')
                [candidate (JStr ''Deep Learning''), candidate JNull] of
           Inl e \<Rightarrow> on_error e | Inr r \<Rightarrow> r)"
    by (rule fetchByTitle_200 [where responseData = "JObj [(''total'',
          JNum (int (length [candidate (JStr ''Deep Learning''), candidate JNull]))),
          (''data'', JArr [candidate (JStr ''Deep Learning''), candidate JNull])]"])
      (simp_all add: scripted_first search_response_def)
  then show ?thesis
    using match_loop_match [OF m, of "[candidate JNull]"]
    by (simp add: Found_def NotFound_def candidate_def del: match_loop.simps)
qed

theorem title_search_null_title_witness:
  "fetchByTitle
     (scripted_server [search_response
        [candidate (JStr ''Shallow Learning''), candidate JNull, candidate (JStr ''Deep Learning'')]])
     [] ''Deep Learning'' ''paperId,citationCount'' =
   (NotFound, [HttpGet (title_search_url ''Deep Learning'' ''paperId,citationCount'')])"
proof -
  have n1: "normalize_string ''Shallow Learning'' = ''shallow learning''" by code_simp
  have n2: "normalize_string ''Deep Learning'' = ''deep learning''" by code_simp
  have s: "\<not> title_matches ''Deep Learning'' (candidate (JStr ''Shallow Learning''))"
    by (simp add: title_matches_def n1 n2)
  show ?thesis
    using title_search_null_title [where log = "[]" and title = "''Deep Learning''"
        and fieldsParam = "''paperId,citationCount''"
        and pre = "[candidate (JStr ''Shallow Learning'')]" and p = "candidate JNull"
        and post = "[candidate (JStr ''Deep Learning'')]"
        and srv = "scripted_server [search_response
          [candidate (JStr ''Shallow Learning''), candidate JNull, candidate (JStr ''Deep Learning'')]]"
        and responseData = "JObj [(''total'', JNum (int (length
          [candidate (JStr ''Shallow Learning''), candidate JNull, candidate (JStr ''Deep Learning'')]))),
          (''data'', JArr [candidate (JStr ''Shallow Learning''), candidate JNull,
             candidate (JStr ''Deep Learning'')])]"] s
    by (simp add: scripted_first search_response_def del: append_eq_append_conv2)
qed

section \<open>Properties of the batch lookup\<close>

declare chunks.simps [simp del]

lemma chunks_Nil [simp]: "chunks n [] = []"
  by (simp add: chunks.simps)

lemma chunks_step: "0 < n \<Longrightarrow> xs \<noteq> [] \<Longrightarrow> chunks n xs = take n xs # chunks n (drop n xs)"
  by (subst chunks.simps) simp

lemma chunks_empty_iff: "0 < n \<Longrightarrow> chunks n xs = [] \<longleftrightarrow> xs = []"
  by (subst chunks.simps) simp

lemma concat_chunks: "0 < n \<Longrightarrow> concat (chunks n xs) = xs"
proof (induction n xs rule: chunks.induct)
  case (1 n xs)
  then show ?case by (cases "xs = []") (simp_all add: chunks_step)
qed

lemma chunks_bounds: "0 < n \<Longrightarrow> c \<in> set (chunks n xs) \<Longrightarrow> c \<noteq> [] \<and> length c \<le> n"
proof (induction n xs rule: chunks.induct)
  case (1 n xs)
  show ?case
  proof (cases "xs = []")
    case True
    then show ?thesis using 1 by simp
  next
    case False
    then show ?thesis using 1 by (auto simp: chunks_step)
  qed
qed

declare batch_loop.simps [simp del]

lemma batch_loop_chunks:
  "batch_loop srv ids fieldsParam i acc = batch_chunks srv fieldsParam (chunks 500 (drop i ids)) acc"
proof (induction srv ids fieldsParam i acc rule: batch_loop.induct)
  case (1 srv ids fieldsParam i results rl log)
  show ?case
  proof (cases "i < length ids")
    case False
    then show ?thesis by (subst batch_loop.simps) simp
  next
    case True
    then have ne: "drop i ids \<noteq> []" by simp
    have ch: "chunks 500 (drop i ids) = take 500 (drop i ids) # chunks 500 (drop (i + 500) ids)"
      using chunks_step [OF _ ne, of 500] by (simp add: add.commute)
    have more: "chunks 500 (drop (i + 500) ids) \<noteq> [] \<longleftrightarrow> i + 500 < length ids"
      by (auto simp: chunks_empty_iff)
    obtain results' break where ba:
      "batch_answer (srv log (HttpPost (batch_url fieldsParam) (take 500 (drop i ids)))) results
         = (results', break)"
      by (cases "batch_answer (srv log (HttpPost (batch_url fieldsParam) (take 500 (drop i ids)))) results")
    show ?thesis
    proof (cases break)
      case True
      then show ?thesis
        using \<open>i < length ids\<close> ba
        by (subst batch_loop.simps) (simp add: ch Let_def)
    next
      case False
      have ih: "batch_loop srv ids fieldsParam (i + 500)
                  (results', rl, if i + 500 < length ids
                     then (log @ [HttpPost (batch_url fieldsParam) (take 500 (drop i ids))]) @ [Sleep 200]
                     else log @ [HttpPost (batch_url fieldsParam) (take 500 (drop i ids))]) =
                batch_chunks srv fieldsParam (chunks 500 (drop (i + 500) ids))
                  (results', rl, if i + 500 < length ids
                     then (log @ [HttpPost (batch_url fieldsParam) (take 500 (drop i ids))]) @ [Sleep 200]
                     else log @ [HttpPost (batch_url fieldsParam) (take 500 (drop i ids))])"
        by (rule 1 [OF \<open>i < length ids\<close> refl refl ba [symmetric] refl refl False])
      show ?thesis
        using \<open>i < length ids\<close> ba False ih more
        by (subst batch_loop.simps) (simp add: ch Let_def)
    qed
  qed
qed

lemma batchFetch_chunks:
  "batchFetch srv log ids fieldsParam = batch_chunks srv fieldsParam (chunks 500 ids) ([], False, log)"
  by (simp add: batchFetch_def batch_loop_chunks)


lemma batch_answer_break:
  "batch_answer answer results = (results', True) \<Longrightarrow> results' = results"
  by (auto simp: batch_answer_def split: http_result.splits if_splits sum.splits)

lemma batch_answer_keeps: "prefix results (fst (batch_answer answer results))"
  by (auto simp: batch_answer_def split: http_result.splits if_splits sum.splits)

lemma batch_chunks_keeps:
  "prefix results (fst (batch_chunks srv fieldsParam cs (results, rl, log)))"
proof (induction cs arbitrary: results rl log)
  case Nil
  show ?case by simp
next
  case (Cons c cs)
  obtain results' break where ba:
    "batch_answer (srv log (HttpPost (batch_url fieldsParam) c)) results = (results', break)"
    by (cases "batch_answer (srv log (HttpPost (batch_url fieldsParam) c)) results")
  have p: "prefix results results'"
    using batch_answer_keeps [of results "srv log (HttpPost (batch_url fieldsParam) c)"] ba by simp
  show ?case
  proof (cases break)
    case True
    then show ?thesis using ba p by simp
  next
    case False
    have "prefix results' (fst (batch_chunks srv fieldsParam cs
        (results', rl, if cs \<noteq> [] then (log @ [HttpPost (batch_url fieldsParam) c]) @ [Sleep 200]
                        else log @ [HttpPost (batch_url fieldsParam) c])))"
      by (rule Cons.IH)
    with p have "prefix results (fst (batch_chunks srv fieldsParam cs
        (results', rl, if cs \<noteq> [] then (log @ [HttpPost (batch_url fieldsParam) c]) @ [Sleep 200]
                        else log @ [HttpPost (batch_url fieldsParam) c])))"
      by (rule prefix_order.trans)
    then show ?thesis using ba False by (simp add: Let_def)
  qed
qed

lemma paced_Cons:
  "rs \<noteq> [] \<Longrightarrow> paced (r # rs) = r # Sleep 200 # paced rs"
  by (cases rs) simp_all

lemma batch_chunks_events:
  "\<exists>k \<le> length cs. (cs \<noteq> [] \<longrightarrow> 0 < k)
     \<and> snd (snd (batch_chunks srv fieldsParam cs (results, False, log))) =
         log @ paced (map (HttpPost (batch_url fieldsParam)) (take k cs))
     \<and> (\<not> fst (snd (batch_chunks srv fieldsParam cs (results, False, log))) \<longrightarrow> k = length cs)"
proof (induction cs arbitrary: results log)
  case Nil
  show ?case by simp
next
  case (Cons c cs)
  let ?post = "HttpPost (batch_url fieldsParam)"
  obtain results' break where ba:
    "batch_answer (srv log (?post c)) results = (results', break)"
    by (cases "batch_answer (srv log (?post c)) results")
  show ?case
  proof (cases break)
    case True
    then have "batch_chunks srv fieldsParam (c # cs) (results, False, log) = (results', True, log @ [?post c])"
      using ba by simp
    then show ?thesis by (intro exI [of _ 1]) simp
  next
    case False
    let ?log2 = "if cs \<noteq> [] then (log @ [?post c]) @ [Sleep 200] else log @ [?post c]"
    have step: "batch_chunks srv fieldsParam (c # cs) (results, False, log) =
        batch_chunks srv fieldsParam cs (results', False, ?log2)"
      using ba False by (simp add: Let_def)
    from Cons.IH [of results' ?log2] obtain k where k: "k \<le> length cs" "cs \<noteq> [] \<longrightarrow> 0 < k"
      "snd (snd (batch_chunks srv fieldsParam cs (results', False, ?log2))) =
         ?log2 @ paced (map ?post (take k cs))"
      "\<not> fst (snd (batch_chunks srv fieldsParam cs (results', False, ?log2))) \<longrightarrow> k = length cs"
      by blast
    have "?log2 @ paced (map ?post (take k cs)) = log @ paced (map ?post (take (Suc k) (c # cs)))"
    proof (cases "cs = []")
      case True
      then show ?thesis by simp
    next
      case False
      then have "map ?post (take k cs) \<noteq> []" using k(2) by simp
      then show ?thesis using False by (simp add: paced_Cons)
    qed
    then show ?thesis
      using k unfolding step by (intro exI [of _ "Suc k"]) simp
  qed
qed

lemma chunks_600:
  assumes "length ids = 600"
  shows "chunks 500 ids = [take 500 ids, drop 500 ids]"
proof -
  have a: "ids \<noteq> []" and b: "drop 500 ids \<noteq> []" and c: "drop 500 (drop 500 ids) = []"
    using assms by auto
  have "take 500 (drop 500 ids) = drop 500 ids" using assms by simp
  then show ?thesis
    using chunks_step [OF _ a, of 500] chunks_step [OF _ b, of 500] c by simp
qed

lemma chunk_answer_0:
  "chunk_answer srv log fieldsParam (c # cs) 0 = srv log (HttpPost (batch_url fieldsParam) c)"
  by (simp add: chunk_answer_def chunk_history_def)

lemma chunk_history_Suc:
  "j < length cs \<Longrightarrow>
   chunk_history log fieldsParam (c # cs) (Suc j) =
     chunk_history (log @ [HttpPost (batch_url fieldsParam) c, Sleep 200]) fieldsParam cs j"
proof (cases j)
  case 0
  then show ?thesis by (simp add: chunk_history_def)
next
  case (Suc j')
  assume "j < length cs"
  then have "map (HttpPost (batch_url fieldsParam)) (take j cs) \<noteq> []" using Suc by auto
  then show ?thesis by (simp add: chunk_history_def paced_Cons)
qed

lemma chunk_answer_Suc:
  "j < length cs \<Longrightarrow>
   chunk_answer srv log fieldsParam (c # cs) (Suc j) =
     chunk_answer srv (log @ [HttpPost (batch_url fieldsParam) c, Sleep 200]) fieldsParam cs j"
  by (simp add: chunk_answer_def chunk_history_Suc)

lemma batch_answer_array:
  "batch_answer (Response 200 (Inr (JArr xs))) results = (results @ xs, False)"
  by (simp add: batch_answer_def)

lemma batch_break_any:
  "snd (batch_answer answer results) = snd (batch_answer answer [])"
  by (auto simp: batch_answer_def split: http_result.splits sum.splits)

lemma batch_chunks_all_answered:
  "\<forall>j < length cs. chunk_answer srv log fieldsParam cs j = Response 200 (Inr (JArr (xs j))) \<Longrightarrow>
   batch_chunks srv fieldsParam cs (results, rl, log) =
     (results @ concat (map xs [0..<length cs]), rl,
      log @ paced (map (HttpPost (batch_url fieldsParam)) cs))"
proof (induction cs arbitrary: log results xs)
  case Nil
  show ?case by simp
next
  case (Cons c cs)
  let ?post = "HttpPost (batch_url fieldsParam)"
  have a0: "srv log (?post c) = Response 200 (Inr (JArr (xs 0)))"
    using Cons.prems [rule_format, of 0] by (simp add: chunk_answer_0)
  show ?case
  proof (cases "cs = []")
    case True
    then show ?thesis using a0 by (simp add: batch_answer_array)
  next
    case False
    have "batch_chunks srv fieldsParam cs (results @ xs 0, rl, log @ [?post c, Sleep 200]) =
        ((results @ xs 0) @ concat (map (\<lambda>j. xs (Suc j)) [0..<length cs]), rl,
         (log @ [?post c, Sleep 200]) @ paced (map ?post cs))"
    proof (rule Cons.IH)
      show "\<forall>j<length cs. chunk_answer srv (log @ [?post c, Sleep 200]) fieldsParam cs j =
          Response 200 (Inr (JArr (xs (Suc j))))"
        using Cons.prems by (auto simp: chunk_answer_Suc [symmetric])
    qed
    moreover have "concat (map xs [0..<length (c # cs)]) =
        xs 0 @ concat (map (\<lambda>j. xs (Suc j)) [0..<length cs])"
      by (simp add: map_upt_Suc del: upt_Suc)
    ultimately show ?thesis
      using a0 False by (simp add: batch_answer_array paced_Cons del: upt_Suc)
  qed
qed

lemma batch_chunks_rate_limited_at:
  "k < length cs \<Longrightarrow>
   \<forall>j < k. chunk_answer srv log fieldsParam cs j = Response 200 (Inr (JArr (xs j))) \<Longrightarrow>
   snd (batch_answer (chunk_answer srv log fieldsParam cs k) []) \<Longrightarrow>
   batch_chunks srv fieldsParam cs (results, rl, log) =
     (results @ concat (map xs [0..<k]), True,
      log @ paced (map (HttpPost (batch_url fieldsParam)) (take (Suc k) cs)))"
proof (induction cs arbitrary: log results xs k)
  case Nil
  then show ?case by simp
next
  case (Cons c cs)
  let ?post = "HttpPost (batch_url fieldsParam)"
  show ?case
  proof (cases k)
    case 0
    have "snd (batch_answer (srv log (?post c)) results)"
      using Cons.prems(3) 0 batch_break_any [of "srv log (?post c)" results]
      by (simp add: chunk_answer_0)
    then obtain r where r: "batch_answer (srv log (?post c)) results = (r, True)"
      by (cases "batch_answer (srv log (?post c)) results") auto
    then show ?thesis using batch_answer_break [OF r] 0 by simp
  next
    case (Suc k')
    then have k': "k' < length cs" using Cons.prems(1) by simp
    then have ne: "cs \<noteq> []" by auto
    have a0: "srv log (?post c) = Response 200 (Inr (JArr (xs 0)))"
      using Cons.prems(2) [rule_format, of 0] Suc by (simp add: chunk_answer_0)
    have "batch_chunks srv fieldsParam cs (results @ xs 0, rl, log @ [?post c, Sleep 200]) =
        ((results @ xs 0) @ concat (map (\<lambda>j. xs (Suc j)) [0..<k']), True,
         (log @ [?post c, Sleep 200]) @ paced (map ?post (take (Suc k') cs)))"
    proof (rule Cons.IH [OF k'])
      show "\<forall>j<k'. chunk_answer srv (log @ [?post c, Sleep 200]) fieldsParam cs j =
          Response 200 (Inr (JArr (xs (Suc j))))"
        using Cons.prems(2) Suc k' by (auto simp: chunk_answer_Suc [symmetric])
      show "snd (batch_answer (chunk_answer srv (log @ [?post c, Sleep 200]) fieldsParam cs k') [])"
        using Cons.prems(3) Suc k' by (simp add: chunk_answer_Suc)
    qed
    moreover have "concat (map xs [0..<k]) = xs 0 @ concat (map (\<lambda>j. xs (Suc j)) [0..<k'])"
      unfolding Suc by (simp add: map_upt_Suc del: upt_Suc)
    moreover have "map ?post (take (Suc k') cs) \<noteq> []" using ne by (cases cs) simp_all
    ultimately show ?thesis
      using a0 ne Suc by (simp add: batch_answer_array paced_Cons del: upt_Suc)
  qed
qed


lemma chunk_rate_limited_break: "chunk_rate_limited answer \<Longrightarrow> snd (batch_answer answer [])"
proof (cases answer)
  case (Response status body)
  assume "chunk_rate_limited answer"
  then show ?thesis using Response by (simp add: batch_answer_def)
next
  case (Throws e)
  assume h: "chunk_rate_limited answer"
  obtain msg where e: "e = Error msg" by (cases e)
  have "msg \<noteq> []"
  proof
    assume "msg = []"
    then show False using h Throws e by simp
  qed
  then show ?thesis using h Throws e by (simp add: batch_answer_def)
qed

text \<open>
  Claim C9. \<^verbatim>\<open>batchFetch\<close> is the chunk-by-chunk lookup over the consecutive chunks of at
  most 500 ids: the chunks are non-empty, at most 500 long, and concatenate to the input;
  the events are one POST per chunk for a prefix of the chunks, with a 200 ms wait between
  two requests, and for all the chunks unless the result is flagged rate limited. 600 ids
  are the chunks of 500 and 100 ids, and exactly these two requests are issued when the
  first is not rate limited. A chunk answered with status 429 is rate limited; at a
  rate-limited chunk the remaining chunks are not requested and the results so far are
  returned with the flag; results once obtained stay in the result list. When the catalog
  answers every chunk with status 200 and an array of papers, the call returns these
  arrays concatenated in the order of the chunks, not flagged, after one request per
  chunk. When it answers the chunks before index \<open>k\<close> so and the chunk at index \<open>k\<close> with
  a rate limit, the call returns the papers of the chunks before \<open>k\<close>, concatenated in
  order, with the flag set, and the chunks after \<open>k\<close> are not requested.
\<close>

theorem batch_chunking:
  "batchFetch srv log ids fieldsParam = batch_chunks srv fieldsParam (chunks 500 ids) ([], False, log)
   \<and> concat (chunks 500 ids) = ids
   \<and> (\<forall>c \<in> set (chunks 500 ids). c \<noteq> [] \<and> length c \<le> 500)
   \<and> (\<exists>k \<le> length (chunks 500 ids).
         snd (snd (batchFetch srv log ids fieldsParam)) =
           log @ paced (map (HttpPost (batch_url fieldsParam)) (take k (chunks 500 ids)))
         \<and> (\<not> fst (snd (batchFetch srv log ids fieldsParam)) \<longrightarrow> k = length (chunks 500 ids)))
   \<and> (length ids = 600 \<longrightarrow>
         chunks 500 ids = [take 500 ids, drop 500 ids]
         \<and> length (take 500 ids) = 500 \<and> length (drop 500 ids) = 100)
   \<and> (length ids = 600
         \<and> \<not> snd (batch_answer (srv log (HttpPost (batch_url fieldsParam) (take 500 ids))) []) \<longrightarrow>
       snd (snd (batchFetch srv log ids fieldsParam)) =
         log @ [HttpPost (batch_url fieldsParam) (take 500 ids), Sleep 200,
                HttpPost (batch_url fieldsParam) (drop 500 ids)])
   \<and> (\<forall>body results. batch_answer (Response 429 body) results = (results, True))
   \<and> (\<forall>c cs results rl l.
         snd (batch_answer (srv l (HttpPost (batch_url fieldsParam) c)) results) \<longrightarrow>
         batch_chunks srv fieldsParam (c # cs) (results, rl, l) =
           (results, True, l @ [HttpPost (batch_url fieldsParam) c]))
   \<and> (\<forall>cs results rl l. prefix results (fst (batch_chunks srv fieldsParam cs (results, rl, l))))
   \<and> ((\<forall>j < length (chunks 500 ids).
          chunk_answer srv log fieldsParam (chunks 500 ids) j = Response 200 (Inr (JArr (papers j)))) \<longrightarrow>
       batchFetch srv log ids fieldsParam =
         (concat (map papers [0..<length (chunks 500 ids)]), False,
          log @ paced (map (HttpPost (batch_url fieldsParam)) (chunks 500 ids))))
   \<and> (k < length (chunks 500 ids)
       \<and> (\<forall>j < k. chunk_answer srv log fieldsParam (chunks 500 ids) j =
                     Response 200 (Inr (JArr (papers j))))
       \<and> chunk_rate_limited (chunk_answer srv log fieldsParam (chunks 500 ids) k) \<longrightarrow>
       batchFetch srv log ids fieldsParam =
         (concat (map papers [0..<k]), True,
          log @ paced (map (HttpPost (batch_url fieldsParam)) (take (Suc k) (chunks 500 ids)))))"
proof -
  have tm: "batch_answer (Response 429 body) results = (results, True)" for body results
    by (simp add: batch_answer_def)
  let ?post = "HttpPost (batch_url fieldsParam)"
  have ev: "\<exists>k \<le> length (chunks 500 ids).
         snd (snd (batchFetch srv log ids fieldsParam)) =
           log @ paced (map ?post (take k (chunks 500 ids)))
         \<and> (\<not> fst (snd (batchFetch srv log ids fieldsParam)) \<longrightarrow> k = length (chunks 500 ids))"
    using batch_chunks_events [of "chunks 500 ids" srv fieldsParam "[]" log]
    unfolding batchFetch_chunks by blast
  have six: "snd (snd (batchFetch srv log ids fieldsParam)) =
         log @ [?post (take 500 ids), Sleep 200, ?post (drop 500 ids)]"
    if len: "length ids = 600" and nb: "\<not> snd (batch_answer (srv log (?post (take 500 ids))) [])"
  proof -
    obtain r1 where r1: "batch_answer (srv log (?post (take 500 ids))) [] = (r1, False)"
      using nb by (cases "batch_answer (srv log (?post (take 500 ids))) []") auto
    obtain r2 b2 where r2: "batch_answer (srv (log @ [?post (take 500 ids), Sleep 200])
        (?post (drop 500 ids))) r1 = (r2, b2)"
      by (cases "batch_answer (srv (log @ [?post (take 500 ids), Sleep 200]) (?post (drop 500 ids))) r1")
    show ?thesis
      unfolding batchFetch_chunks chunks_600 [OF len]
      using r1 r2 by (cases b2) (simp_all add: Let_def)
  qed
  have brk: "batch_chunks srv fieldsParam (c # cs) (results, rl, l) = (results, True, l @ [?post c])"
    if h: "snd (batch_answer (srv l (?post c)) results)" for c cs results rl l
  proof -
    obtain r where "batch_answer (srv l (?post c)) results = (r, True)"
      using h by (cases "batch_answer (srv l (?post c)) results") auto
    then show ?thesis using batch_answer_break [of "srv l (?post c)" results r] by simp
  qed
  have all: "batchFetch srv log ids fieldsParam =
         (concat (map papers [0..<length (chunks 500 ids)]), False,
          log @ paced (map ?post (chunks 500 ids)))"
    if "\<forall>j < length (chunks 500 ids).
          chunk_answer srv log fieldsParam (chunks 500 ids) j = Response 200 (Inr (JArr (papers j)))"
    unfolding batchFetch_chunks
    using batch_chunks_all_answered [OF that, of "[]" False] by simp
  have lim: "batchFetch srv log ids fieldsParam =
         (concat (map papers [0..<k]), True,
          log @ paced (map ?post (take (Suc k) (chunks 500 ids))))"
    if a: "k < length (chunks 500 ids)"
      and b: "\<forall>j < k. chunk_answer srv log fieldsParam (chunks 500 ids) j =
                     Response 200 (Inr (JArr (papers j)))"
      and c: "chunk_rate_limited (chunk_answer srv log fieldsParam (chunks 500 ids) k)"
    unfolding batchFetch_chunks
    using batch_chunks_rate_limited_at [OF a b chunk_rate_limited_break [OF c], of "[]" False]
    by simp
  show ?thesis
    using batchFetch_chunks [of srv log ids fieldsParam] concat_chunks [of 500 ids]
      chunks_bounds [of 500 _ ids] ev chunks_600 [of ids] six brk tm
      batch_chunks_keeps [of _ srv fieldsParam] all lim
    by (simp del: batch_chunks.simps upt_Suc)
qed

lemma chunks_two:
  assumes "500 < length ids" and "length ids \<le> 1000"
  shows "chunks 500 ids = [take 500 ids, drop 500 ids]"
proof -
  have a: "ids \<noteq> []" and b: "drop 500 ids \<noteq> []" and c: "drop 500 (drop 500 ids) = []"
    using assms by auto
  have "take 500 (drop 500 ids) = drop 500 ids" using assms by simp
  then show ?thesis
    using chunks_step [OF _ a, of 500] chunks_step [OF _ b, of 500] c by simp
qed

lemma length_ids600: "length ids600 = 600"
  by (simp add: ids600_def)

lemma chunks_ids600: "chunks 500 ids600 = [take 500 ids600, drop 500 ids600]"
  by (rule chunks_600) (simp add: ids600_def)

lemma papers_ids600:
  "map paper_for (take 500 ids600) @ map paper_for (drop 500 ids600) = map paper_for ids600"
  by (simp add: map_append [symmetric] del: map_append)

theorem batch_chunking_witness:
  "batchFetch honest_catalog [] ids600 ''paperId,citationCount'' =
     (map paper_for ids600, False,
      [HttpPost (batch_url ''paperId,citationCount'') (take 500 ids600), Sleep 200,
       HttpPost (batch_url ''paperId,citationCount'') (drop 500 ids600)])
   \<and> batchFetch (throttle_after 1 honest_catalog) [] ids600 ''paperId,citationCount'' =
     (map paper_for (take 500 ids600), True,
      [HttpPost (batch_url ''paperId,citationCount'') (take 500 ids600), Sleep 200,
       HttpPost (batch_url ''paperId,citationCount'') (drop 500 ids600)])
   \<and> batchFetch throttling_catalog [] ids600 ''paperId,citationCount'' =
     ([], True, [HttpPost (batch_url ''paperId,citationCount'') (take 500 ids600)])
   \<and> length (take 500 ids600) = 500 \<and> length (drop 500 ids600) = 100
   \<and> length (map paper_for ids600) = 600"
proof -
  let ?fp = "''paperId,citationCount''"
  let ?cs = "[take 500 ids600, drop 500 ids600]"
  let ?papers = "\<lambda>j. map paper_for (?cs ! j)"
  have two: "(\<forall>j<2. P j) \<longleftrightarrow> P 0 \<and> P (Suc 0)" for P :: "nat \<Rightarrow> bool"
    by (auto simp: less_Suc_eq numeral_2_eq_2)
  have one: "(\<forall>j<Suc 0. P j) \<longleftrightarrow> P 0" for P :: "nat \<Rightarrow> bool"
    by simp
  have honest: "\<forall>j < length (chunks 500 ids600).
      chunk_answer honest_catalog [] ?fp (chunks 500 ids600) j = Response 200 (Inr (JArr (?papers j)))"
    unfolding chunks_ids600
    by (simp add: two chunk_answer_def honest_catalog_def del: upt_rec_numeral)
  have first: "\<forall>j < Suc 0.
      chunk_answer (throttle_after 1 honest_catalog) [] ?fp (chunks 500 ids600) j =
        Response 200 (Inr (JArr (?papers j)))"
    unfolding chunks_ids600
    by (simp add: chunk_answer_def chunk_history_def throttle_after_def honest_catalog_def
        del: upt_rec_numeral)
  have second: "chunk_rate_limited
      (chunk_answer (throttle_after 1 honest_catalog) [] ?fp (chunks 500 ids600) (Suc 0))"
    unfolding chunks_ids600
    by (simp add: chunk_answer_def chunk_history_def throttle_after_def del: upt_rec_numeral)
  have none: "\<forall>j < (0::nat). chunk_answer throttling_catalog [] ?fp (chunks 500 ids600) j =
        Response 200 (Inr (JArr (?papers j)))"
    by simp
  have zero: "chunk_rate_limited (chunk_answer throttling_catalog [] ?fp (chunks 500 ids600) 0)"
    by (simp add: chunk_answer_def throttling_catalog_def)
  have l1: "Suc 0 < length (chunks 500 ids600)" and l0: "0 < length (chunks 500 ids600)"
    unfolding chunks_ids600 by simp_all
  note t1 = batch_chunking [where srv = honest_catalog and log = "[]" and ids = ids600
      and fieldsParam = ?fp and papers = ?papers]
  note t2 = batch_chunking [where srv = "throttle_after 1 honest_catalog" and log = "[]"
      and ids = ids600 and fieldsParam = ?fp and papers = ?papers and k = "Suc 0"]
  note t3 = batch_chunking [where srv = throttling_catalog and log = "[]"
      and ids = ids600 and fieldsParam = ?fp and papers = ?papers and k = 0]
  from t1 honest have a: "batchFetch honest_catalog [] ids600 ?fp =
      (concat (map ?papers [0..<length (chunks 500 ids600)]), False,
       [] @ paced (map (HttpPost (batch_url ?fp)) (chunks 500 ids600)))"
    by blast
  from t2 l1 first second have b: "batchFetch (throttle_after 1 honest_catalog) [] ids600 ?fp =
      (concat (map ?papers [0..<Suc 0]), True,
       [] @ paced (map (HttpPost (batch_url ?fp)) (take (Suc (Suc 0)) (chunks 500 ids600))))"
    by blast
  from t3 l0 none zero have c: "batchFetch throttling_catalog [] ids600 ?fp =
      (concat (map ?papers [0..<0]), True,
       [] @ paced (map (HttpPost (batch_url ?fp)) (take (Suc 0) (chunks 500 ids600))))"
    by blast
  from t1 length_ids600 have d: "length (take 500 ids600) = 500 \<and> length (drop 500 ids600) = 100"
    by blast
  have u2: "[0..<2] = [0, Suc 0]" by (simp add: numeral_2_eq_2)
  show ?thesis
    using a b c d papers_ids600
    by (simp add: chunks_ids600 u2 length_ids600 del: upt_rec_numeral map_append)
qed

lemma sid_neq: "sid 0 \<noteq> sid 500"
proof
  assume "sid 0 = sid 500"
  then have "length (sid 0) = length (sid 500)" by simp
  then show False by (simp add: sid_def)
qed

lemma upt_500: "[500..<501] = [500::nat]"
  by simp

lemma ids501_facts:
  "length ids501 = 501" "drop 500 ids501 = [sid 500]" "ids501 ! 0 = sid 0"
  by (simp_all add: ids501_def drop_map nth_map_upt upt_500 del: upt_rec_numeral)


lemma getScholarId_item_with_id: "getScholarId (item_with_id n) = Some (sid n)"
  by (simp add: getScholarId_def item_with_id_def sid_def)

lemma itemsWithIds_map:
  "itemsWithIds (map item_with_id ns) = map (\<lambda>n. (item_with_id n, sid n)) ns"
  by (induction ns) (simp_all add: itemsWithIds_def getScholarId_item_with_id)

lemma buildFieldsParam_none: "buildFieldsParam (\<lambda>_. False) = ''paperId,citationCount''"
  by (simp add: buildFieldsParam_def)

lemma batchFetch_failed_first_chunk:
  "batchFetch (failing_first honest_catalog) [] ids501 ''paperId,citationCount'' =
     ([paper_for (sid 500)], False,
      [HttpPost (batch_url ''paperId,citationCount'') (take 500 ids501), Sleep 200,
       HttpPost (batch_url ''paperId,citationCount'') [sid 500]])"
proof -
  have c: "chunks 500 ids501 = [take 500 ids501, [sid 500]]"
    using chunks_two [of ids501] by (simp add: ids501_facts)
  show ?thesis
    unfolding batchFetch_chunks c
    by (simp add: batch_answer_def failing_first_def honest_catalog_def Let_def)
qed

text \<open>
  Claim C2. The claim has the i-th result belong to the i-th id also when a chunk fails
  and later chunks run. For 501 ids and a catalog whose first answer is a status 500, the
  first chunk contributes nothing and the second chunk's result is pushed at index 0:
  \<^verbatim>\<open>batchFetch\<close> returns one result, the paper of the id at index 500, and
  \<^verbatim>\<open>batchFetchByScholarIds\<close> files it under the item at index 0, whose catalog id is
  another one.
\<close>

theorem batch_results_shift_after_failed_chunk:
  "batchFetch (failing_first honest_catalog) [] ids501 ''paperId,citationCount'' =
     ([paper_for (sid 500)], False,
      [HttpPost (batch_url ''paperId,citationCount'') (take 500 ids501), Sleep 200,
       HttpPost (batch_url ''paperId,citationCount'') [sid 500]])
   \<and> length ids501 = 501 \<and> ids501 ! 0 = sid 0 \<and> ids501 ! 500 = sid 500 \<and> sid 0 \<noteq> sid 500
   \<and> getScholarId (items501 ! 0) = Some (sid 0) \<and> item_id (items501 ! 0) = 0
   \<and> fst (batchFetchByScholarIds (failing_first honest_catalog) (\<lambda>_. False) items501 []) 0 =
       Some (paper_for (sid 500))"
proof -
  have i0: "items501 ! 0 = item_with_id 0"
    by (simp add: items501_def nth_map_upt del: upt_rec_numeral)
  have n500: "ids501 ! 500 = sid 500"
    by (simp add: ids501_def nth_map_upt del: upt_rec_numeral)
  have w: "itemsWithIds items501 = map (\<lambda>n. (item_with_id n, sid n)) [0..<501]"
    unfolding items501_def by (rule itemsWithIds_map)
  have ids: "map snd (itemsWithIds items501) = ids501"
    unfolding w ids501_def by (simp add: comp_def del: upt_rec_numeral)
  have ne: "itemsWithIds items501 \<noteq> []"
    unfolding w by (simp del: upt_rec_numeral)
  have z: "zip (itemsWithIds items501) [paper_for (sid 500)] =
      [((item_with_id 0, sid 0), paper_for (sid 500))]"
    unfolding w by (subst upt_conv_Cons) simp_all
  have mb: "map_back (itemsWithIds items501) [paper_for (sid 500)] 0 = Some (paper_for (sid 500))"
    unfolding map_back_def z by (simp add: paper_for_def item_with_id_def)
  have b: "fst (batchFetchByScholarIds (failing_first honest_catalog) (\<lambda>_. False) items501 []) 0 =
       Some (paper_for (sid 500))"
    using ne mb
    by (simp add: batchFetchByScholarIds_def Let_def buildFieldsParam_none ids
        batchFetch_failed_first_chunk)
  show ?thesis
    using batchFetch_failed_first_chunk ids501_facts n500 sid_neq b
    by (simp add: i0 getScholarId_item_with_id) (simp add: item_with_id_def)
qed

section \<open>Properties of the single-item fetch\<close>

lemma makeRequest_log [simp]: "snd (makeRequest srv log url) = log @ [HttpGet url]"
  by (simp add: makeRequest_def)

lemma or_else_nil: "or_else (first_decisive srv [] log) k = k log"
  by (simp add: or_else_def)

lemma or_else_Cons:
  "or_else (first_decisive srv (url # urls) log) k =
     (let (result, log1) = makeRequest srv log url
      in if decisive result then (result, log1) else or_else (first_decisive srv urls log1) k)"
  by (simp add: or_else_def Let_def split: prod.splits)

lemma first_decisive_append:
  "or_else (first_decisive srv (us @ vs) log) k =
   or_else (first_decisive srv us log) (\<lambda>l. or_else (first_decisive srv vs l) k)"
  by (induction us arbitrary: log)
    (simp_all add: or_else_nil or_else_Cons Let_def split: prod.splits del: first_decisive.simps)

lemma or_else_single:
  "or_else (first_decisive srv [url] log) k =
     (let (result, log1) = makeRequest srv log url
      in if rateLimited result then (result, log1)
         else if truthy (data result) then (result, log1)
         else k log1)"
  by (simp add: or_else_Cons or_else_nil Let_def decisive_def split: prod.splits
      del: first_decisive.simps)

lemma try_scholarId_fold:
  "try_scholarId srv searchMode fieldsParam it log =
   or_else (first_decisive srv
       (case getScholarId it of Some scholarId \<Rightarrow> [lookup_url KindScholarId scholarId fieldsParam]
        | None \<Rightarrow> []) log)
     (title_fallback srv searchMode fieldsParam it)"
  by (cases "getScholarId it")
    (simp_all add: try_scholarId_def or_else_single or_else_nil fetchByScholarId_def
      del: first_decisive.simps)

lemma try_pmid_fold:
  "try_pmid srv searchMode fieldsParam it log =
   or_else (first_decisive srv
       (case getPMID it of Some pmid \<Rightarrow> [lookup_url KindPMID pmid fieldsParam] | None \<Rightarrow> []) log)
     (try_scholarId srv searchMode fieldsParam it)"
  by (cases "getPMID it")
    (simp_all add: try_pmid_def or_else_single or_else_nil fetchByPMID_def
      del: first_decisive.simps)

lemma try_arxiv_fold:
  "try_arxiv srv searchMode fieldsParam it log =
   or_else (first_decisive srv
       (case getArxivId it of Some arxivId \<Rightarrow> [lookup_url KindArxiv arxivId fieldsParam] | None \<Rightarrow> []) log)
     (try_pmid srv searchMode fieldsParam it)"
  by (cases "getArxivId it")
    (simp_all add: try_arxiv_def or_else_single or_else_nil fetchByArxivId_def
      del: first_decisive.simps)

lemma fetchDataForItem_fold:
  assumes "isRegularItem it"
  shows "fetchDataForItem srv shouldFetchField searchMode it log =
     or_else (first_decisive srv (identifier_urls it (buildFieldsParam shouldFetchField)) log)
       (title_fallback srv searchMode (buildFieldsParam shouldFetchField) it)"
proof -
  let ?fp = "buildFieldsParam shouldFetchField"
  have "fetchDataForItem srv shouldFetchField searchMode it log =
      or_else (first_decisive srv
         (case getDOI it of Some doi \<Rightarrow> [lookup_url KindDOI doi ?fp] | None \<Rightarrow> []) log)
        (try_arxiv srv searchMode ?fp it)"
    using assms
    by (cases "getDOI it")
      (simp_all add: fetchDataForItem_def Let_def or_else_single or_else_nil fetchByDOI_def
        del: first_decisive.simps)
  also have "try_arxiv srv searchMode ?fp it =
      (\<lambda>l. or_else (first_decisive srv
         (case getArxivId it of Some arxivId \<Rightarrow> [lookup_url KindArxiv arxivId ?fp] | None \<Rightarrow> []) l)
       (\<lambda>l. or_else (first_decisive srv
         (case getPMID it of Some pmid \<Rightarrow> [lookup_url KindPMID pmid ?fp] | None \<Rightarrow> []) l)
       (\<lambda>l. or_else (first_decisive srv
         (case getScholarId it of Some scholarId \<Rightarrow> [lookup_url KindScholarId scholarId ?fp]
          | None \<Rightarrow> []) l)
       (title_fallback srv searchMode ?fp it))))"
  proof -
    have s: "try_scholarId srv searchMode ?fp it =
        (\<lambda>l. or_else (first_decisive srv
           (case getScholarId it of Some scholarId \<Rightarrow> [lookup_url KindScholarId scholarId ?fp]
            | None \<Rightarrow> []) l)
         (title_fallback srv searchMode ?fp it))"
      by (rule ext) (rule try_scholarId_fold)
    have p: "try_pmid srv searchMode ?fp it =
        (\<lambda>l. or_else (first_decisive srv
           (case getPMID it of Some pmid \<Rightarrow> [lookup_url KindPMID pmid ?fp] | None \<Rightarrow> []) l)
         (try_scholarId srv searchMode ?fp it))"
      by (rule ext) (rule try_pmid_fold)
    have a: "try_arxiv srv searchMode ?fp it =
        (\<lambda>l. or_else (first_decisive srv
           (case getArxivId it of Some arxivId \<Rightarrow> [lookup_url KindArxiv arxivId ?fp] | None \<Rightarrow> []) l)
         (try_pmid srv searchMode ?fp it))"
      by (rule ext) (rule try_arxiv_fold)
    show ?thesis by (simp only: a p s)
  qed
  finally show ?thesis
    unfolding identifier_urls_def first_decisive_append .
qed

lemma nth_result_Cons_0: "nth_result srv log (u # us) 0 = fst (makeRequest srv log u)"
  by (simp add: nth_result_def)

lemma nth_result_Cons_Suc:
  "nth_result srv log (u # us) (Suc j) = nth_result srv (log @ [HttpGet u]) us j"
  by (simp add: nth_result_def)

lemma first_decisive_hit:
  "k < length urls \<Longrightarrow> decisive (nth_result srv log urls k) \<Longrightarrow>
   \<forall>j < k. \<not> decisive (nth_result srv log urls j) \<Longrightarrow>
   first_decisive srv urls log =
     (Some (nth_result srv log urls k), log @ map HttpGet (take (Suc k) urls))"
proof (induction urls arbitrary: log k)
  case Nil
  then show ?case by simp
next
  case (Cons u us)
  obtain r l where mr: "makeRequest srv log u = (r, l)" by (cases "makeRequest srv log u")
  then have l: "l = log @ [HttpGet u]" using makeRequest_log [of srv log u] by simp
  show ?case
  proof (cases k)
    case 0
    then show ?thesis using Cons.prems mr l by (simp add: nth_result_Cons_0)
  next
    case (Suc k')
    have nd: "\<not> decisive r"
      using Cons.prems(3) [rule_format, of 0] Suc mr by (simp add: nth_result_Cons_0)
    have "first_decisive srv us l =
        (Some (nth_result srv l us k'), l @ map HttpGet (take (Suc k') us))"
    proof (rule Cons.IH)
      show "k' < length us" using Cons.prems(1) Suc by simp
      show "decisive (nth_result srv l us k')"
        using Cons.prems(2) Suc l by (simp add: nth_result_Cons_Suc)
      show "\<forall>j<k'. \<not> decisive (nth_result srv l us j)"
        using Cons.prems(3) Suc l by (auto simp: nth_result_Cons_Suc [symmetric])
    qed
    then show ?thesis using mr nd Suc l by (simp add: nth_result_Cons_Suc)
  qed
qed

lemma first_decisive_miss:
  "\<forall>j < length urls. \<not> decisive (nth_result srv log urls j) \<Longrightarrow>
   first_decisive srv urls log = (None, log @ map HttpGet urls)"
proof (induction urls arbitrary: log)
  case Nil
  then show ?case by simp
next
  case (Cons u us)
  obtain r l where mr: "makeRequest srv log u = (r, l)" by (cases "makeRequest srv log u")
  then have l: "l = log @ [HttpGet u]" using makeRequest_log [of srv log u] by simp
  have nd: "\<not> decisive r"
    using Cons.prems [rule_format, of 0] mr by (simp add: nth_result_Cons_0)
  have "first_decisive srv us l = (None, l @ map HttpGet us)"
  proof (rule Cons.IH)
    show "\<forall>j<length us. \<not> decisive (nth_result srv l us j)"
      using Cons.prems l by (auto simp: nth_result_Cons_Suc [symmetric])
  qed
  then show ?case using mr nd l by simp
qed


lemma regex_search_here: "m s = Some r \<Longrightarrow> regex_search m s = Some r"
  by (cases s) simp_all

lemma regex_search_skip:
  "\<forall>c \<in> set pre. \<forall>s. m (c # s) = None \<Longrightarrow> regex_search m (pre @ s) = regex_search m s"
  by (induction pre) simp_all

lemma regex_search_none:
  "\<forall>c \<in> set s. \<forall>r. m (c # r) = None \<Longrightarrow> m [] = None \<Longrightarrow> regex_search m s = None"
  by (induction s) simp_all

lemma after_literal_head:
  "ascii_lower c \<noteq> l \<Longrightarrow> after_literal (l # lit) (c # s) = None"
  by (simp add: after_literal_def)

lemma after_literal_spelt:
  "spells lit l' \<Longrightarrow> after_literal lit (l' @ s) = Some s"
  by (auto simp: after_literal_def spells_def)

lemma after_literal_Nil: "after_literal (l # lit) [] = None"
  by (simp add: after_literal_def)

lemma digit_not_space: "is_digit c \<Longrightarrow> \<not> is_space c"
  by (auto simp: is_digit_def is_space_def)

lemma dot_not_digit: "\<not> is_digit CHR ''.''"
  by (simp add: is_digit_def code_unit_def)

lemma takeWhile_digits:
  "list_all is_digit ds \<Longrightarrow> no_digit_next rest \<Longrightarrow>
   takeWhile is_digit (ds @ rest) = ds \<and> dropWhile is_digit (ds @ rest) = rest"
  by (induction ds) (auto simp: no_digit_next_def split: list.splits)

lemma match_digits_digits:
  "digits ds \<Longrightarrow> no_digit_next rest \<Longrightarrow> match_digits (ds @ rest) = Some ds"
  by (simp add: match_digits_def digits_def takeWhile_digits)

lemma match_number_digits:
  assumes "digits d1" "digits d2" "no_digit_next rest"
  shows "match_number (d1 @ ''.'' @ d2 @ rest) = Some (d1 @ ''.'' @ d2)"
proof -
  have n: "no_digit_next (''.'' @ d2 @ rest)"
    by (simp add: no_digit_next_def dot_not_digit)
  have a: "match_digits (d1 @ ''.'' @ d2 @ rest) = Some d1"
    by (rule match_digits_digits [OF assms(1) n])
  have b: "dropWhile is_digit (d1 @ ''.'' @ d2 @ rest) = CHR ''.'' # d2 @ rest"
    using takeWhile_digits [OF _ n, of d1] assms(1) by (simp add: digits_def)
  have c: "match_digits (d2 @ rest) = Some d2"
    by (rule match_digits_digits [OF assms(2,3)])
  show ?thesis
    unfolding match_number_def a b by (simp add: c)
qed

lemma dropWhile_spaces:
  "list_all is_space ws \<Longrightarrow> digits ds \<Longrightarrow> dropWhile is_space (ws @ ds @ rest) = ds @ rest"
  by (induction ws) (auto simp: digits_def digit_not_space neq_Nil_conv)

lemma arxiv_extra_match_found:
  assumes "never_starts CHR ''a'' pre" "spells ''arxiv:'' lit" "list_all is_space ws"
    "digits d1" "digits d2" "no_digit_next rest"
  shows "arxiv_extra_match (pre @ lit @ ws @ d1 @ ''.'' @ d2 @ rest) = Some (d1 @ ''.'' @ d2)"
proof -
  let ?m = "\<lambda>s. case after_literal ''arxiv:'' s of
                    None \<Rightarrow> None | Some r \<Rightarrow> match_number (dropWhile is_space r)"
  have skip: "\<forall>c \<in> set pre. \<forall>s. ?m (c # s) = None"
    using assms(1) by (auto simp: never_starts_def list_all_iff after_literal_head)
  have "dropWhile is_space (ws @ d1 @ ''.'' @ d2 @ rest) = d1 @ ''.'' @ d2 @ rest"
    by (rule dropWhile_spaces [OF assms(3,4)])
  then have here: "?m (lit @ ws @ d1 @ ''.'' @ d2 @ rest) = Some (d1 @ ''.'' @ d2)"
    using after_literal_spelt [OF assms(2)] match_number_digits [OF assms(4,5,6)] by simp
  show ?thesis
    unfolding arxiv_extra_match_def regex_search_skip [where m = ?m, OF skip]
    by (rule regex_search_here [where m = ?m, OF here])
qed

lemma arxiv_url_match_found:
  assumes "never_starts CHR ''a'' pre" "spells ''arxiv.org/abs/'' lit"
    "digits d1" "digits d2" "no_digit_next rest"
  shows "arxiv_url_match (pre @ lit @ d1 @ ''.'' @ d2 @ rest) = Some (d1 @ ''.'' @ d2)"
proof -
  let ?m = "\<lambda>s. case after_literal ''arxiv.org/abs/'' s of
                    None \<Rightarrow> None | Some r \<Rightarrow> match_number r"
  have skip: "\<forall>c \<in> set pre. \<forall>s. ?m (c # s) = None"
    using assms(1) by (auto simp: never_starts_def list_all_iff after_literal_head)
  have here: "?m (lit @ d1 @ ''.'' @ d2 @ rest) = Some (d1 @ ''.'' @ d2)"
    using after_literal_spelt [OF assms(2)] match_number_digits [OF assms(3,4,5)] by simp
  show ?thesis
    unfolding arxiv_url_match_def regex_search_skip [where m = ?m, OF skip]
    by (rule regex_search_here [where m = ?m, OF here])
qed

lemma pmid_match_found:
  assumes "never_starts CHR ''p'' pre" "spells ''pmid:'' lit" "list_all is_space ws"
    "digits ds" "no_digit_next rest"
  shows "pmid_match (pre @ lit @ ws @ ds @ rest) = Some ds"
proof -
  let ?m = "\<lambda>s. case after_literal ''pmid:'' s of
                    None \<Rightarrow> None | Some r \<Rightarrow> match_digits (dropWhile is_space r)"
  have skip: "\<forall>c \<in> set pre. \<forall>s. ?m (c # s) = None"
    using assms(1) by (auto simp: never_starts_def list_all_iff after_literal_head)
  have "dropWhile is_space (ws @ ds @ rest) = ds @ rest"
    by (rule dropWhile_spaces [OF assms(3,4)])
  then have here: "?m (lit @ ws @ ds @ rest) = Some ds"
    using after_literal_spelt [OF assms(2)] match_digits_digits [OF assms(4,5)] by simp
  show ?thesis
    unfolding pmid_match_def regex_search_skip [where m = ?m, OF skip]
    by (rule regex_search_here [where m = ?m, OF here])
qed

lemma arxiv_extra_match_none:
  "never_starts CHR ''a'' extra \<Longrightarrow> arxiv_extra_match extra = None"
  unfolding arxiv_extra_match_def
  by (rule regex_search_none)
    (auto simp: never_starts_def list_all_iff after_literal_head after_literal_Nil)

lemma arxiv_url_match_none:
  "never_starts CHR ''a'' url \<Longrightarrow> arxiv_url_match url = None"
  unfolding arxiv_url_match_def
  by (rule regex_search_none)
    (auto simp: never_starts_def list_all_iff after_literal_head after_literal_Nil)

lemma pmid_match_none:
  "never_starts CHR ''p'' extra \<Longrightarrow> pmid_match extra = None"
  unfolding pmid_match_def
  by (rule regex_search_none)
    (auto simp: never_starts_def list_all_iff after_literal_head after_literal_Nil)


lemma identifier_urls_all:
  "getDOI it = Some doi \<Longrightarrow> getArxivId it = Some arxivId \<Longrightarrow> getPMID it = Some pmid \<Longrightarrow>
   getScholarId it = Some scholarId \<Longrightarrow>
   identifier_urls it fieldsParam =
     [BASE_URL @ ''/paper/DOI:'' @ encodeURIComponent doi @ ''?fields='' @ fieldsParam,
      BASE_URL @ ''/paper/ARXIV:'' @ encodeURIComponent arxivId @ ''?fields='' @ fieldsParam,
      BASE_URL @ ''/paper/PMID:'' @ encodeURIComponent pmid @ ''?fields='' @ fieldsParam,
      BASE_URL @ ''/paper/'' @ scholarId @ ''?fields='' @ fieldsParam]"
  by (simp add: identifier_urls_def)

lemma identifier_urls_none:
  "getDOI it = None \<Longrightarrow> getArxivId it = None \<Longrightarrow> getPMID it = None \<Longrightarrow>
   getScholarId it = None \<Longrightarrow> identifier_urls it fieldsParam = []"
  by (simp add: identifier_urls_def)

text \<open>
  Claim C3. For a regular item, \<^verbatim>\<open>fetchDataForItem\<close> requests the lookups of the present
  identifiers in the order DOI, arXiv id, PMID, catalog id: if the k-th lookup is the
  first whose result is rate limited or carries data, that result is returned after
  exactly the first k + 1 requests; if no lookup is decisive, all are requested and the
  call goes on to the title fallback, which searches by title only when the search mode
  is \<open>title\<close> (and the item has a title) and returns \<open>NotFound\<close> otherwise. The arXiv id
  is the match of the pattern on the \<open>extra\<close> field if there is one, else the match of
  the URL pattern. An item that is not regular gets \<open>NotFound\<close> without any request.

  The lookups of an item with all four identifiers are the requests for
  \<^verbatim>\<open>/paper/DOI:\<close>, \<^verbatim>\<open>/paper/ARXIV:\<close>, \<^verbatim>\<open>/paper/PMID:\<close> and \<^verbatim>\<open>/paper/\<close> with the
  identifier, in this order, and an item without identifiers has none. The DOI is the
  non-empty \<open>DOI\<close> field. The arXiv id is the number \<open>d1.d2\<close> of the first annotation
  \<^verbatim>\<open>arXiv:\<close> (in any letter case, spaces allowed before the number) of the \<open>extra\<close>
  field, whatever the URL is; when \<open>extra\<close> has no such annotation it is the number after
  the first \<^verbatim>\<open>arxiv.org/abs/\<close> of the URL; a text without the letter \<open>a\<close> matches neither
  pattern. The PMID is the digits of the first annotation \<^verbatim>\<open>PMID:\<close> of \<open>extra\<close>, and
  there is none when \<open>extra\<close> has no letter \<open>p\<close>. The catalog id is the non-empty
  \<^verbatim>\<open>paperId\<close> of the storage note of a regular item, and there is none without a note.
\<close>

theorem fetch_priority_order:
  "(isRegularItem it \<longrightarrow>
      (\<forall>k < length (identifier_urls it (buildFieldsParam shouldFetchField)).
          decisive (nth_result srv log (identifier_urls it (buildFieldsParam shouldFetchField)) k)
          \<and> (\<forall>j < k. \<not> decisive
                (nth_result srv log (identifier_urls it (buildFieldsParam shouldFetchField)) j)) \<longrightarrow>
          fetchDataForItem srv shouldFetchField searchMode it log =
            (nth_result srv log (identifier_urls it (buildFieldsParam shouldFetchField)) k,
             log @ map HttpGet (take (Suc k) (identifier_urls it (buildFieldsParam shouldFetchField)))))
      \<and> ((\<forall>j < length (identifier_urls it (buildFieldsParam shouldFetchField)).
            \<not> decisive (nth_result srv log (identifier_urls it (buildFieldsParam shouldFetchField)) j)) \<longrightarrow>
          fetchDataForItem srv shouldFetchField searchMode it log =
            title_fallback srv searchMode (buildFieldsParam shouldFetchField) it
              (log @ map HttpGet (identifier_urls it (buildFieldsParam shouldFetchField)))))
   \<and> (\<not> isRegularItem it \<longrightarrow>
        fetchDataForItem srv shouldFetchField searchMode it log = (NotFound, log))
   \<and> getArxivId it =
       (case arxiv_extra_match (getField it ''extra'') of
          Some m \<Rightarrow> Some m
        | None \<Rightarrow> arxiv_url_match (getField it ''url''))
   \<and> title_fallback srv searchMode fieldsParam it l =
       (if searchMode = ''title'' \<and> getField it ''title'' \<noteq> []
        then fetchByTitle srv l (getField it ''title'') fieldsParam
        else (NotFound, l))
   \<and> (\<forall>doi arxivId pmid scholarId.
         getDOI it = Some doi \<and> getArxivId it = Some arxivId \<and> getPMID it = Some pmid
         \<and> getScholarId it = Some scholarId \<longrightarrow>
         identifier_urls it fieldsParam =
           [BASE_URL @ ''/paper/DOI:'' @ encodeURIComponent doi @ ''?fields='' @ fieldsParam,
            BASE_URL @ ''/paper/ARXIV:'' @ encodeURIComponent arxivId @ ''?fields='' @ fieldsParam,
            BASE_URL @ ''/paper/PMID:'' @ encodeURIComponent pmid @ ''?fields='' @ fieldsParam,
            BASE_URL @ ''/paper/'' @ scholarId @ ''?fields='' @ fieldsParam])
   \<and> (getDOI it = None \<and> getArxivId it = None \<and> getPMID it = None \<and> getScholarId it = None \<longrightarrow>
         identifier_urls it fieldsParam = [])
   \<and> getDOI it = (if getField it ''DOI'' = [] then None else Some (getField it ''DOI''))
   \<and> (\<forall>pre lit ws d1 d2 rest.
         getField it ''extra'' = pre @ lit @ ws @ d1 @ ''.'' @ d2 @ rest
         \<and> never_starts CHR ''a'' pre \<and> spells ''arxiv:'' lit \<and> list_all is_space ws
         \<and> digits d1 \<and> digits d2 \<and> no_digit_next rest \<longrightarrow>
         getArxivId it = Some (d1 @ ''.'' @ d2))
   \<and> (\<forall>pre lit d1 d2 rest.
         arxiv_extra_match (getField it ''extra'') = None
         \<and> getField it ''url'' = pre @ lit @ d1 @ ''.'' @ d2 @ rest
         \<and> never_starts CHR ''a'' pre \<and> spells ''arxiv.org/abs/'' lit
         \<and> digits d1 \<and> digits d2 \<and> no_digit_next rest \<longrightarrow>
         getArxivId it = Some (d1 @ ''.'' @ d2))
   \<and> (\<forall>s. never_starts CHR ''a'' s \<longrightarrow> arxiv_extra_match s = None \<and> arxiv_url_match s = None)
   \<and> (\<forall>pre lit ws ds rest.
         getField it ''extra'' = pre @ lit @ ws @ ds @ rest
         \<and> never_starts CHR ''p'' pre \<and> spells ''pmid:'' lit \<and> list_all is_space ws
         \<and> digits ds \<and> no_digit_next rest \<longrightarrow>
         getPMID it = Some ds)
   \<and> (never_starts CHR ''p'' (getField it ''extra'') \<longrightarrow> getPMID it = None)
   \<and> (\<forall>d pid. isRegularItem it \<and> stored it = Some d \<and> sd_paperId d = Some pid \<and> pid \<noteq> [] \<longrightarrow>
         getScholarId it = Some pid)
   \<and> (stored it = None \<longrightarrow> getScholarId it = None)"
proof -
  let ?urls = "identifier_urls it (buildFieldsParam shouldFetchField)"
  have hit: "fetchDataForItem srv shouldFetchField searchMode it log =
            (nth_result srv log ?urls k, log @ map HttpGet (take (Suc k) ?urls))"
    if "isRegularItem it" "k < length ?urls" "decisive (nth_result srv log ?urls k)"
      "\<forall>j < k. \<not> decisive (nth_result srv log ?urls j)" for k
    unfolding fetchDataForItem_fold [OF that(1)] first_decisive_hit [OF that(2,3,4)]
    by (simp add: or_else_def)
  have miss: "fetchDataForItem srv shouldFetchField searchMode it log =
            title_fallback srv searchMode (buildFieldsParam shouldFetchField) it
              (log @ map HttpGet ?urls)"
    if "isRegularItem it" "\<forall>j < length ?urls. \<not> decisive (nth_result srv log ?urls j)"
    unfolding fetchDataForItem_fold [OF that(1)] first_decisive_miss [OF that(2)]
    by (simp add: or_else_def)
  have irr: "\<not> isRegularItem it \<longrightarrow>
        fetchDataForItem srv shouldFetchField searchMode it log = (NotFound, log)"
    by (simp add: fetchDataForItem_def)
  have arx: "getArxivId it =
       (case arxiv_extra_match (getField it ''extra'') of
          Some m \<Rightarrow> Some m
        | None \<Rightarrow> arxiv_url_match (getField it ''url''))"
    by (simp add: getArxivId_def)
  have tf: "title_fallback srv searchMode fieldsParam it l =
       (if searchMode = ''title'' \<and> getField it ''title'' \<noteq> []
        then fetchByTitle srv l (getField it ''title'') fieldsParam
        else (NotFound, l))"
    by (simp add: title_fallback_def)
  have doi: "getDOI it = (if getField it ''DOI'' = [] then None else Some (getField it ''DOI''))"
    by (simp add: getDOI_def)
  have e1: "getArxivId it = Some (d1 @ ''.'' @ d2)"
    if "getField it ''extra'' = pre @ lit @ ws @ d1 @ ''.'' @ d2 @ rest"
      "never_starts CHR ''a'' pre" "spells ''arxiv:'' lit" "list_all is_space ws"
      "digits d1" "digits d2" "no_digit_next rest" for pre lit ws d1 d2 rest
    unfolding getArxivId_def that(1) arxiv_extra_match_found [OF that(2-7)] by simp
  have e2: "getArxivId it = Some (d1 @ ''.'' @ d2)"
    if "arxiv_extra_match (getField it ''extra'') = None"
      "getField it ''url'' = pre @ lit @ d1 @ ''.'' @ d2 @ rest"
      "never_starts CHR ''a'' pre" "spells ''arxiv.org/abs/'' lit"
      "digits d1" "digits d2" "no_digit_next rest" for pre lit d1 d2 rest
    unfolding getArxivId_def that(1) that(2) arxiv_url_match_found [OF that(3-7)] by simp
  have e4: "getPMID it = Some ds"
    if "getField it ''extra'' = pre @ lit @ ws @ ds @ rest"
      "never_starts CHR ''p'' pre" "spells ''pmid:'' lit" "list_all is_space ws"
      "digits ds" "no_digit_next rest" for pre lit ws ds rest
    unfolding getPMID_def that(1) by (rule pmid_match_found [OF that(2-6)])
  have e5: "never_starts CHR ''p'' (getField it ''extra'') \<longrightarrow> getPMID it = None"
    by (simp add: getPMID_def pmid_match_none)
  have e9: "getScholarId it = Some pid"
    if "isRegularItem it" "stored it = Some d" "sd_paperId d = Some pid" "pid \<noteq> []" for d pid
    using that by (simp add: getScholarId_def)
  have e10: "stored it = None \<longrightarrow> getScholarId it = None"
    by (simp add: getScholarId_def)
  have c1: "isRegularItem it \<longrightarrow>
      (\<forall>k < length ?urls. decisive (nth_result srv log ?urls k)
          \<and> (\<forall>j < k. \<not> decisive (nth_result srv log ?urls j)) \<longrightarrow>
          fetchDataForItem srv shouldFetchField searchMode it log =
            (nth_result srv log ?urls k, log @ map HttpGet (take (Suc k) ?urls)))
      \<and> ((\<forall>j < length ?urls. \<not> decisive (nth_result srv log ?urls j)) \<longrightarrow>
          fetchDataForItem srv shouldFetchField searchMode it log =
            title_fallback srv searchMode (buildFieldsParam shouldFetchField) it
              (log @ map HttpGet ?urls))"
    using hit miss by blast
  have c6: "\<forall>doi arxivId pmid scholarId.
         getDOI it = Some doi \<and> getArxivId it = Some arxivId \<and> getPMID it = Some pmid
         \<and> getScholarId it = Some scholarId \<longrightarrow>
         identifier_urls it fieldsParam =
           [BASE_URL @ ''/paper/DOI:'' @ encodeURIComponent doi @ ''?fields='' @ fieldsParam,
            BASE_URL @ ''/paper/ARXIV:'' @ encodeURIComponent arxivId @ ''?fields='' @ fieldsParam,
            BASE_URL @ ''/paper/PMID:'' @ encodeURIComponent pmid @ ''?fields='' @ fieldsParam,
            BASE_URL @ ''/paper/'' @ scholarId @ ''?fields='' @ fieldsParam]"
    using identifier_urls_all [of it] by blast
  have c7: "getDOI it = None \<and> getArxivId it = None \<and> getPMID it = None \<and> getScholarId it = None \<longrightarrow>
         identifier_urls it fieldsParam = []"
    using identifier_urls_none [of it] by blast
  have c9: "\<forall>pre lit ws d1 d2 rest.
         getField it ''extra'' = pre @ lit @ ws @ d1 @ ''.'' @ d2 @ rest
         \<and> never_starts CHR ''a'' pre \<and> spells ''arxiv:'' lit \<and> list_all is_space ws
         \<and> digits d1 \<and> digits d2 \<and> no_digit_next rest \<longrightarrow>
         getArxivId it = Some (d1 @ ''.'' @ d2)"
    using e1 by blast
  have c10: "\<forall>pre lit d1 d2 rest.
         arxiv_extra_match (getField it ''extra'') = None
         \<and> getField it ''url'' = pre @ lit @ d1 @ ''.'' @ d2 @ rest
         \<and> never_starts CHR ''a'' pre \<and> spells ''arxiv.org/abs/'' lit
         \<and> digits d1 \<and> digits d2 \<and> no_digit_next rest \<longrightarrow>
         getArxivId it = Some (d1 @ ''.'' @ d2)"
    using e2 by blast
  have c11: "\<forall>s. never_starts CHR ''a'' s \<longrightarrow> arxiv_extra_match s = None \<and> arxiv_url_match s = None"
    by (simp add: arxiv_extra_match_none arxiv_url_match_none)
  have c12: "\<forall>pre lit ws ds rest.
         getField it ''extra'' = pre @ lit @ ws @ ds @ rest
         \<and> never_starts CHR ''p'' pre \<and> spells ''pmid:'' lit \<and> list_all is_space ws
         \<and> digits ds \<and> no_digit_next rest \<longrightarrow>
         getPMID it = Some ds"
    using e4 by blast
  have c14: "\<forall>d pid. isRegularItem it \<and> stored it = Some d \<and> sd_paperId d = Some pid \<and> pid \<noteq> [] \<longrightarrow>
         getScholarId it = Some pid"
    using e9 by blast
  show ?thesis
    by (intro conjI) (rule c1 irr arx tf c6 c7 doi c9 c10 c11 c12 e5 c14 e10)+
qed


lemma paper_record_urls:
  "identifier_urls paper_record ''paperId,citationCount'' = paper_record_urls"
  by code_simp

lemma annotated_record_urls:
  "identifier_urls annotated_record ''paperId,citationCount'' = annotated_record_urls"
  by code_simp

lemma annotated_record_search:
  "title_search_url ''Attention Is All You Need'' ''paperId,citationCount'' = annotated_record_search"
  by code_simp

lemma all_less_4:
  "(\<forall>j<4. P j) \<longleftrightarrow> P 0 \<and> P (Suc 0) \<and> P (Suc (Suc 0)) \<and> P (Suc (Suc (Suc 0)))"
  for P :: "nat \<Rightarrow> bool"
proof -
  have "j < 4 \<longleftrightarrow> j = 0 \<or> j = Suc 0 \<or> j = Suc (Suc 0) \<or> j = Suc (Suc (Suc 0))" for j :: nat
    by arith
  then show ?thesis by auto
qed

lemma all_less_3:
  "(\<forall>j<Suc (Suc (Suc 0)). P j) \<longleftrightarrow> P 0 \<and> P (Suc 0) \<and> P (Suc (Suc 0))"
  for P :: "nat \<Rightarrow> bool"
  by (auto simp: less_Suc_eq)

lemma requests_of_gets: "length (filter is_request (map HttpGet us)) = length us"
  by (induction us) simp_all

lemma nth_result_scripted:
  "j < length urls \<Longrightarrow> j < length answers \<Longrightarrow>
   nth_result (scripted_server answers) [] urls j =
     fst (makeRequest (\<lambda>log request. answers ! j) [] (urls ! j))"
  by (simp add: nth_result_def makeRequest_def scripted_server_def requests_of_gets)

lemma all_less_2:
  "(\<forall>j<Suc (Suc 0). P j) \<longleftrightarrow> P 0 \<and> P (Suc 0)"
  for P :: "nat \<Rightarrow> bool"
  by (auto simp: less_Suc_eq)

theorem fetch_priority_order_witness:
  "fetchDataForItem
     (scripted_server [not_found, not_found, not_found, not_found,
        search_response [candidate (JStr ''attention is all you need'')]])
     (\<lambda>_. False) ''title'' annotated_record [] =
   (Found (candidate (JStr ''attention is all you need'')),
    map HttpGet annotated_record_urls @ [HttpGet annotated_record_search])
   \<and> fetchDataForItem
     (scripted_server [not_found, not_found, not_found, not_found,
        search_response [candidate (JStr ''attention is all you need'')]])
     (\<lambda>_. False) ''identifiers'' annotated_record [] =
   (NotFound, map HttpGet annotated_record_urls)
   \<and> fetchDataForItem
     (scripted_server [not_found, not_found, not_found, Response 200 (Inr (paper_for ''abc123''))])
     (\<lambda>_. False) ''title'' annotated_record [] =
   (Found (paper_for ''abc123''), map HttpGet annotated_record_urls)
   \<and> fetchDataForItem
     (scripted_server [not_found, not_found, Response 200 (Inr (paper_for ''abc123''))])
     (\<lambda>_. False) ''title'' annotated_record [] =
   (Found (paper_for ''abc123''), map HttpGet (take 3 annotated_record_urls))
   \<and> fetchDataForItem
     (scripted_server [not_found, Response 200 (Inr (paper_for ''abc123''))])
     (\<lambda>_. False) ''title'' paper_record [] =
   (Found (paper_for ''abc123''), [HttpGet (paper_record_urls ! 0), HttpGet (paper_record_urls ! 1)])
   \<and> fetchDataForItem (scripted_server [Response 429 (Inr JNull)])
     (\<lambda>_. False) ''title'' paper_record [] =
   (RateLimited, [HttpGet (paper_record_urls ! 0)])
   \<and> getArxivId annotated_record = Some ''1706.03762''
   \<and> getPMID annotated_record = Some ''12345''
   \<and> getScholarId annotated_record = Some ''abc123''
   \<and> getArxivId paper_record = Some ''1706.03762''
   \<and> getPMID paper_record = Some ''12345''"
proof -
  let ?cand = "candidate (JStr ''attention is all you need'')"
  let ?s = "scripted_server [not_found, not_found, not_found, not_found, search_response [?cand]]"
  let ?c = "scripted_server [not_found, not_found, not_found, Response 200 (Inr (paper_for ''abc123''))]"
  let ?p = "scripted_server [not_found, not_found, Response 200 (Inr (paper_for ''abc123''))]"
  let ?a = "scripted_server [not_found, Response 200 (Inr (paper_for ''abc123''))]"
  let ?b = "scripted_server [Response 429 (Inr JNull)]"
  let ?fp = "''paperId,citationCount''"
  have reg: "isRegularItem annotated_record" by (simp add: annotated_record_def)
  have regp: "isRegularItem paper_record" by (simp add: paper_record_def)
  have len: "length annotated_record_urls = 4" by (simp add: annotated_record_urls_def)
  have lenp: "length paper_record_urls = 3" by (simp add: paper_record_urls_def)
  have d: "\<not> decisive NotFound" "decisive (Found (paper_for ''abc123''))" "decisive RateLimited"
    by (simp_all add: decisive_def NotFound_def Found_def RateLimited_def paper_for_def)
  have nf: "fst (makeRequest (\<lambda>log request. not_found) [] u) = NotFound" for u
    by (simp add: makeRequest_def not_found_def)
  have fd: "fst (makeRequest (\<lambda>log request. Response 200 (Inr (paper_for ''abc123''))) [] u) =
      Found (paper_for ''abc123'')" for u
    by (simp add: makeRequest_def)
  have rl: "fst (makeRequest (\<lambda>log request. Response 429 (Inr JNull)) [] u) = RateLimited" for u
    by (simp add: makeRequest_def)
  note t = fetch_priority_order [where it = annotated_record and shouldFetchField = "\<lambda>_. False"
      and log = "[]" and fieldsParam = ?fp, unfolded buildFieldsParam_none annotated_record_urls]
  note tp = fetch_priority_order [where it = paper_record and shouldFetchField = "\<lambda>_. False"
      and log = "[]" and fieldsParam = ?fp, unfolded buildFieldsParam_none paper_record_urls]
  note extractors = t [THEN conjunct2, THEN conjunct2, THEN conjunct2, THEN conjunct2,
      THEN conjunct2, THEN conjunct2, THEN conjunct2]
  note extractorsp = tp [THEN conjunct2, THEN conjunct2, THEN conjunct2, THEN conjunct2,
      THEN conjunct2, THEN conjunct2, THEN conjunct2]
  have hit: "fetchDataForItem srv (\<lambda>_. False) mode annotated_record [] =
        (nth_result srv [] annotated_record_urls k, [] @ map HttpGet (take (Suc k) annotated_record_urls))"
    if "k < length annotated_record_urls" "decisive (nth_result srv [] annotated_record_urls k)"
      "\<forall>j < k. \<not> decisive (nth_result srv [] annotated_record_urls j)" for srv k mode
    using t [where srv = srv and searchMode = mode, THEN conjunct1, THEN mp, OF reg, THEN conjunct1]
      that by blast
  have miss: "fetchDataForItem srv (\<lambda>_. False) mode annotated_record [] =
        title_fallback srv mode ?fp annotated_record ([] @ map HttpGet annotated_record_urls)"
    if "\<forall>j < length annotated_record_urls. \<not> decisive (nth_result srv [] annotated_record_urls j)"
    for srv mode
    using t [where srv = srv and searchMode = mode, THEN conjunct1, THEN mp, OF reg, THEN conjunct2]
      that by blast
  have tf: "title_fallback srv mode ?fp annotated_record l =
       (if mode = ''title'' \<and> getField annotated_record ''title'' \<noteq> []
        then fetchByTitle srv l (getField annotated_record ''title'') ?fp
        else (NotFound, l))" for srv mode l
    by (rule t [where srv = srv and searchMode = mode and l = l,
          THEN conjunct2, THEN conjunct2, THEN conjunct2, THEN conjunct1])
  have hitp: "fetchDataForItem srv (\<lambda>_. False) ''title'' paper_record [] =
        (nth_result srv [] paper_record_urls k, [] @ map HttpGet (take (Suc k) paper_record_urls))"
    if "k < length paper_record_urls" "decisive (nth_result srv [] paper_record_urls k)"
      "\<forall>j < k. \<not> decisive (nth_result srv [] paper_record_urls j)" for srv k
    using tp [where srv = srv and searchMode = "''title''", THEN conjunct1, THEN mp, OF regp,
        THEN conjunct1]
      that by blast
  have title: "getField annotated_record ''title'' = ''Attention Is All You Need''"
    by (simp add: getField_def annotated_record_def)
  have s_all: "\<forall>j < length annotated_record_urls. \<not> decisive (nth_result ?s [] annotated_record_urls j)"
    by (simp add: len all_less_4 nth_result_scripted nf d)
  have search: "fetchByTitle ?s (map HttpGet annotated_record_urls) ''Attention Is All You Need'' ?fp =
      (Found ?cand, map HttpGet annotated_record_urls @ [HttpGet annotated_record_search])"
    by code_simp
  have 1: "fetchDataForItem ?s (\<lambda>_. False) ''title'' annotated_record [] =
      (Found ?cand, map HttpGet annotated_record_urls @ [HttpGet annotated_record_search])"
    using miss [OF s_all, of "''title''"] tf [of ?s "''title''" "map HttpGet annotated_record_urls"]
    by (simp add: title search)
  have 2: "fetchDataForItem ?s (\<lambda>_. False) ''identifiers'' annotated_record [] =
      (NotFound, map HttpGet annotated_record_urls)"
    using miss [OF s_all, of "''identifiers''"]
      tf [of ?s "''identifiers''" "map HttpGet annotated_record_urls"]
    by simp
  have 3: "fetchDataForItem ?c (\<lambda>_. False) ''title'' annotated_record [] =
      (Found (paper_for ''abc123''), map HttpGet annotated_record_urls)"
    using hit [of "Suc (Suc (Suc 0))" ?c "''title''"]
    by (simp add: len all_less_3 nth_result_scripted nf fd d)
  have 4: "fetchDataForItem ?p (\<lambda>_. False) ''title'' annotated_record [] =
      (Found (paper_for ''abc123''), map HttpGet (take 3 annotated_record_urls))"
    using hit [of "Suc (Suc 0)" ?p "''title''"]
    by (simp add: len all_less_2 nth_result_scripted nf fd d numeral_3_eq_3)
  have t2: "take (Suc (Suc 0)) paper_record_urls = [paper_record_urls ! 0, paper_record_urls ! 1]"
    and t1: "take (Suc 0) paper_record_urls = [paper_record_urls ! 0]"
    by (simp_all add: paper_record_urls_def)
  have 5: "fetchDataForItem ?a (\<lambda>_. False) ''title'' paper_record [] =
      (Found (paper_for ''abc123''), [HttpGet (paper_record_urls ! 0), HttpGet (paper_record_urls ! 1)])"
    using hitp [of "Suc 0" ?a]
    by (simp add: lenp nth_result_scripted nf fd d t2)
  have 6: "fetchDataForItem ?b (\<lambda>_. False) ''title'' paper_record [] =
      (RateLimited, [HttpGet (paper_record_urls ! 0)])"
    using hitp [of 0 ?b]
    by (simp add: lenp nth_result_scripted rl d t1)
  have sp: "spells ''arxiv.org/abs/'' ''arxiv.org/abs/''" "spells ''pmid:'' ''PMID:''"
    "spells ''arxiv:'' ''arXiv:''"
    by code_simp+
  have ns: "never_starts CHR ''a'' ''https://''" "never_starts CHR ''p'' []"
    "never_starts CHR ''a'' ''PMID: 12345 ''" "never_starts CHR ''a'' ''PMID: 12345''"
    by code_simp+
  have dg: "digits ''1706''" "digits ''03762''" "digits ''12345''"
    by code_simp+
  have nd: "no_digit_next []" "no_digit_next '' arXiv: 1706.03762''"
    by code_simp+
  have sw: "list_all is_space '' ''"
    by code_simp
  have url: "getField annotated_record ''url'' = ''https://'' @ ''arxiv.org/abs/'' @ ''1706'' @ ''.'' @ ''03762'' @ []"
    and extra: "getField annotated_record ''extra'' = [] @ ''PMID:'' @ '' '' @ ''12345'' @ []"
    and extra_plain: "getField annotated_record ''extra'' = ''PMID: 12345''"
    by (simp_all add: getField_def annotated_record_def)
  have extrap: "getField paper_record ''extra'' = ''PMID: 12345 '' @ ''arXiv:'' @ '' '' @ ''1706'' @ ''.'' @ ''03762'' @ []"
    and extrap2: "getField paper_record ''extra'' = [] @ ''PMID:'' @ '' '' @ ''12345'' @ '' arXiv: 1706.03762''"
    by (simp_all add: getField_def paper_record_def)
  have noextra: "arxiv_extra_match (getField annotated_record ''extra'') = None"
    unfolding extra_plain
    using extractors [THEN conjunct2, THEN conjunct2, THEN conjunct1, rule_format, OF ns(4)]
    by (rule conjunct1)
  have 7: "getArxivId annotated_record = Some ''1706.03762''"
    using extractors [THEN conjunct2, THEN conjunct1, rule_format,
        of "''https://''" "''arxiv.org/abs/''" "''1706''" "''03762''" "[]"]
      noextra url ns(1) sp(1) dg(1,2) nd(1)
    by simp
  have 8: "getPMID annotated_record = Some ''12345''"
    using extractors [THEN conjunct2, THEN conjunct2, THEN conjunct2, THEN conjunct1, rule_format,
        of "[]" "''PMID:''" "'' ''" "''12345''" "[]"]
      extra ns(2) sp(2) sw dg(3) nd(1)
    by simp
  have 9: "getScholarId annotated_record = Some ''abc123''"
    using extractors [THEN conjunct2, THEN conjunct2, THEN conjunct2, THEN conjunct2, THEN conjunct2,
        THEN conjunct1, rule_format, of _ "''abc123''"]
    by (simp add: annotated_record_def)
  have 10: "getArxivId paper_record = Some ''1706.03762''"
    using extractorsp [THEN conjunct1, rule_format,
        of "''PMID: 12345 ''" "''arXiv:''" "'' ''" "''1706''" "''03762''" "[]"]
      extrap ns(3) sp(3) sw dg(1,2) nd(1)
    by simp
  have 11: "getPMID paper_record = Some ''12345''"
    using extractorsp [THEN conjunct2, THEN conjunct2, THEN conjunct2, THEN conjunct1, rule_format,
        of "[]" "''PMID:''" "'' ''" "''12345''" "'' arXiv: 1706.03762''"]
      extrap2 ns(2) sp(2) sw dg(3) nd(2)
    by simp
  from 1 2 3 4 5 6 7 8 9 10 11 show ?thesis by blast
qed

end
